theory Spec2Isabelle
  imports Complex_Main "HOL-Library.Sublist"
begin

section \<open>Values of the Python program\<close>

text \<open>
  \<^verbatim>\<open>fuzzer.py\<close> reads two JSON documents (the configuration and the OpenAPI
  specification) with \<^verbatim>\<open>json.load\<close> and walks through them without checking their
  shape. A document is therefore modelled as the Python value \<^verbatim>\<open>json.load\<close> returns:
  \<^verbatim>\<open>None\<close>, a \<^verbatim>\<open>bool\<close>, an \<^verbatim>\<open>int\<close>, a \<^verbatim>\<open>float\<close>, a \<^verbatim>\<open>str\<close>,
  a \<^verbatim>\<open>list\<close> or a \<^verbatim>\<open>dict\<close>. A \<^verbatim>\<open>dict\<close> is the list of its items in insertion
  order (the order \<^verbatim>\<open>.items()\<close> yields them in); its keys are pairwise distinct in
  Python. The program only asks of a \<^verbatim>\<open>float\<close> whether it is zero, so a real number
  stands for it (\<^verbatim>\<open>NaN\<close> and the infinities behave like any non-zero value here).
\<close>

datatype json =
    JNull
  | JBool bool
  | JInt int
  | JFloat real
  | JStr string
  | JArr "json list"
  | JObj "(string \<times> json) list"

text \<open>The exceptions that can travel through the program.\<close>

datatype exn =
    AttributeError
  | TypeError
  | KeyError
  | ValueError
  | FileNotFoundError
  | JSONDecodeError
  | RequestException string
  | KeyboardInterrupt
  | OtherError string

text \<open>Python's truth value of an object, as \<^verbatim>\<open>if spec:\<close> and \<^verbatim>\<open>if not base:\<close> test it.\<close>

fun truthy :: "json \<Rightarrow> bool" where
  "truthy JNull = False"
| "truthy (JBool b) = b"
| "truthy (JInt i) = (i \<noteq> 0)"
| "truthy (JFloat r) = (r \<noteq> 0)"
| "truthy (JStr s) = (s \<noteq> [])"
| "truthy (JArr xs) = (xs \<noteq> [])"
| "truthy (JObj kvs) = (kvs \<noteq> [])"

text \<open>
  \<^verbatim>\<open>d.get(key, default)\<close>: only a \<^verbatim>\<open>dict\<close> has the method; on every other JSON
  value the attribute lookup raises \<^verbatim>\<open>AttributeError\<close>.
\<close>

fun dict_get :: "json \<Rightarrow> string \<Rightarrow> json \<Rightarrow> exn + json" where
  "dict_get (JObj kvs) k d = (case map_of kvs k of None \<Rightarrow> Inr d | Some v \<Rightarrow> Inr v)"
| "dict_get _ k d = Inl AttributeError"

text \<open>
  \<^verbatim>\<open>d[key]\<close> with a string key: \<^verbatim>\<open>KeyError\<close> on a \<^verbatim>\<open>dict\<close> without the key,
  \<^verbatim>\<open>TypeError\<close> on every other JSON value (a list or a string wants an integer index,
  the rest is not subscriptable).
\<close>

fun subscript :: "json \<Rightarrow> string \<Rightarrow> exn + json" where
  "subscript (JObj kvs) k = (case map_of kvs k of None \<Rightarrow> Inl KeyError | Some v \<Rightarrow> Inr v)"
| "subscript _ k = Inl TypeError"

text \<open>
  \<^verbatim>\<open>for p in v\<close>: the elements of a list, the one-character strings of a string, the
  keys of a dict; the other values are not iterable (\<^verbatim>\<open>TypeError\<close>).
\<close>

fun iterate :: "json \<Rightarrow> exn + json list" where
  "iterate (JArr xs) = Inr xs"
| "iterate (JStr s) = Inr (map (\<lambda>c. JStr [c]) s)"
| "iterate (JObj kvs) = Inr (map (\<lambda>kv. JStr (fst kv)) kvs)"
| "iterate _ = Inl TypeError"

section \<open>String operations\<close>

text \<open>
  \<^verbatim>\<open>s.replace(old, new)\<close> scans from the left and replaces every non-overlapping
  occurrence of \<^verbatim>\<open>old\<close>. With an empty \<^verbatim>\<open>old\<close> Python puts \<^verbatim>\<open>new\<close> before every
  character and at the end.
\<close>

function replace_from :: "string \<Rightarrow> string \<Rightarrow> string \<Rightarrow> string" where
  "replace_from old new [] = []"
| "replace_from old new (c # cs) =
     (if old \<noteq> [] \<and> prefix old (c # cs)
      then new @ replace_from old new (drop (length old) (c # cs))
      else c # replace_from old new cs)"
  by pat_completeness auto
termination
  by (relation "measure (\<lambda>(old, new, s). length s)") auto

definition replace :: "string \<Rightarrow> string \<Rightarrow> string \<Rightarrow> string" where
  "replace old new s =
     (if old = [] then new @ concat (map (\<lambda>c. c # new) s) else replace_from old new s)"

text \<open>\<^verbatim>\<open>s.lstrip(chars)\<close> drops the longest prefix made of characters of \<^verbatim>\<open>chars\<close>.\<close>

definition lstrip :: "string \<Rightarrow> string \<Rightarrow> string" where
  "lstrip chars s = dropWhile (\<lambda>c. c \<in> set chars) s"

text \<open>\<^verbatim>\<open>s.split(sep)\<close> for a one-character separator; the result is never empty.\<close>

fun split_on :: "char \<Rightarrow> string \<Rightarrow> string list" where
  "split_on sep [] = [[]]"
| "split_on sep (c # cs) =
     (if c = sep then [] # split_on sep cs
      else (c # hd (split_on sep cs)) # tl (split_on sep cs))"

text \<open>\<^verbatim>\<open>sep.join(parts)\<close>.\<close>

fun join_with :: "string \<Rightarrow> string list \<Rightarrow> string" where
  "join_with sep [] = []"
| "join_with sep [x] = x"
| "join_with sep (x # y # ys) = x @ sep @ join_with sep (y # ys)"

text \<open>\<^verbatim>\<open>s.strip(chars)\<close> strips both ends.\<close>

definition strip :: "string \<Rightarrow> string \<Rightarrow> string" where
  "strip chars s = rev (lstrip chars (rev (lstrip chars s)))"

text \<open>\<^verbatim>\<open>s.find(c)\<close> for a character that occurs in \<^verbatim>\<open>s\<close> is the length of \<open>before c s\<close>;
  \<open>after c s\<close> is what follows that first occurrence.\<close>

definition before :: "char \<Rightarrow> string \<Rightarrow> string" where
  "before c s = takeWhile (\<lambda>x. x \<noteq> c) s"

definition after :: "char \<Rightarrow> string \<Rightarrow> string" where
  "after c s = drop 1 (dropWhile (\<lambda>x. x \<noteq> c) s)"

section \<open>The world outside the program\<close>

text \<open>
  One HTTP request as \<^verbatim>\<open>requests.request\<close> receives it: the method, the resolved URL
  and the proxy that both entries of \<^verbatim>\<open>PROXIES\<close> name. The body \<^verbatim>\<open>"{}"\<close>, the
  timeout 10 and \<^verbatim>\<open>verify=False\<close> are the same in every request.
\<close>

record request =
  req_method :: string
  req_url :: json
  req_proxy :: json

text \<open>
  What \<^verbatim>\<open>requests.request\<close> does with it: it returns a response with a status code
  or raises: a \<^verbatim>\<open>requests.exceptions.RequestException\<close> (with its message), a
  \<^verbatim>\<open>KeyboardInterrupt\<close> when the user interrupts the run, or something else.
\<close>

datatype outcome =
    Response int
  | Raised exn

text \<open>What opening a file and \<^verbatim>\<open>json.load\<close> on it come to.\<close>

datatype file_result =
    Loaded json
  | ReadFails exn

text \<open>The fields of \<^verbatim>\<open>datetime.datetime.now()\<close> that the report's name uses.\<close>

record datetime =
  hour :: nat
  minute :: nat
  second :: nat
  day :: nat
  month :: nat
  year :: nat

text \<open>
  Everything the program takes from its surroundings, fixed for one run:
  \<^item> \<open>http n r\<close>: the outcome of the \<open>n\<close>-th request of the run, \<open>r\<close>;
  \<^item> \<open>path_exists\<close> and \<open>read_json\<close>: the file system (\<^verbatim>\<open>os.path.exists\<close>, and
    \<^verbatim>\<open>open\<close> followed by \<^verbatim>\<open>json.load\<close>); the path handed to \<^verbatim>\<open>open\<close> is whatever
    the configuration holds, so it is a JSON value;
  \<^item> \<open>now\<close>: the clock when the report is written;
  \<^item> \<open>str_of\<close>: the text of a value that is not a string, as an f-string formats it;
  \<^item> \<open>bracketed_netloc_ok\<close>: \<^verbatim>\<open>urllib.parse._check_bracketed_netloc\<close> accepts a network
    location with a bracketed host (it parses the IP literal);
  \<^item> \<open>nfkc_netloc_ok\<close>: \<^verbatim>\<open>urllib.parse._checknetloc\<close> accepts a network location with
    non-ASCII characters (it normalises them to NFKC).
  Writing the report and printing are taken to succeed.
\<close>

record world =
  http :: "nat \<Rightarrow> request \<Rightarrow> outcome"
  path_exists :: "string \<Rightarrow> bool"
  read_json :: "json \<Rightarrow> file_result"
  now :: datetime
  str_of :: "json \<Rightarrow> string"
  bracketed_netloc_ok :: "string \<Rightarrow> bool"
  nfkc_netloc_ok :: "string \<Rightarrow> bool"

section \<open>\<^verbatim>\<open>urllib.parse.urljoin\<close>\<close>

text \<open>
  \<^verbatim>\<open>urljoin\<close> belongs to Python's standard library; the definitions below follow
  \<^verbatim>\<open>Lib/urllib/parse.py\<close> of CPython 3.12 function by function.
\<close>

definition uses_relative :: "string list" where
  "uses_relative = ['''', ''ftp'', ''http'', ''gopher'', ''nntp'', ''imap'',
     ''wais'', ''file'', ''https'', ''shttp'', ''mms'',
     ''prospero'', ''rtsp'', ''rtsps'', ''rtspu'', ''sftp'',
     ''svn'', ''svn+ssh'', ''ws'', ''wss'']"

definition uses_netloc :: "string list" where
  "uses_netloc = ['''', ''ftp'', ''http'', ''gopher'', ''nntp'', ''telnet'',
     ''imap'', ''wais'', ''file'', ''mms'', ''https'', ''shttp'',
     ''snews'', ''prospero'', ''rtsp'', ''rtsps'', ''rtspu'', ''rsync'',
     ''svn'', ''svn+ssh'', ''sftp'', ''nfs'', ''git'', ''git+ssh'',
     ''ws'', ''wss'', ''itms-services'']"

definition uses_params :: "string list" where
  "uses_params = ['''', ''ftp'', ''hdl'', ''prospero'', ''http'', ''imap'',
     ''https'', ''shttp'', ''rtsp'', ''rtsps'', ''rtspu'', ''sip'',
     ''sips'', ''mms'', ''sftp'', ''tel'']"

definition ascii_lowercase :: string where
  "ascii_lowercase = ''abcdefghijklmnopqrstuvwxyz''"

definition ascii_uppercase :: string where
  "ascii_uppercase = ''ABCDEFGHIJKLMNOPQRSTUVWXYZ''"

definition scheme_chars :: string where
  "scheme_chars = ascii_lowercase @ ascii_uppercase @ ''0123456789'' @ ''+-.''"

text \<open>The characters with codes 0 to 32.\<close>

definition C0_CONTROL_OR_SPACE :: string where
  "C0_CONTROL_OR_SPACE = map char_of [0 ..< (33::nat)]"

definition UNSAFE_URL_BYTES_TO_REMOVE :: string where
  "UNSAFE_URL_BYTES_TO_REMOVE = [CHR 0x09, CHR 0x0D, CHR 0x0A]"

definition isascii :: "string \<Rightarrow> bool" where
  "isascii s = (\<forall>c \<in> set s. (of_char c :: nat) < 128)"

text \<open>\<^verbatim>\<open>s.lower()\<close>, used on scheme characters only.\<close>

definition lower :: "string \<Rightarrow> string" where
  "lower s = map (\<lambda>c. if c \<in> set ascii_uppercase then char_of (of_char c + (32::nat)) else c) s"

record split_result =
  scheme :: string
  netloc :: string
  path :: string
  query :: string
  fragment :: string

record parse_result = split_result +
  params :: string

text \<open>\<^verbatim>\<open>_splitnetloc(url, 2)\<close>: the network location ends at the first of \<^verbatim>\<open>/?#\<close>.\<close>

definition splitnetloc :: "string \<Rightarrow> string \<times> string" where
  "splitnetloc url =
     (let rest = drop 2 url
      in (takeWhile (\<lambda>c. c \<notin> set ''/?#'') rest, dropWhile (\<lambda>c. c \<notin> set ''/?#'') rest))"

definition urlsplit :: "world \<Rightarrow> string \<Rightarrow> string \<Rightarrow> exn + split_result" where
  "urlsplit w url0 scheme0 =
     (let url1 = filter (\<lambda>c. c \<notin> set UNSAFE_URL_BYTES_TO_REMOVE) (lstrip C0_CONTROL_OR_SPACE url0);
          scheme1 = filter (\<lambda>c. c \<notin> set UNSAFE_URL_BYTES_TO_REMOVE) (strip C0_CONTROL_OR_SPACE scheme0);
          head = before (CHR '':'') url1;
          found = (CHR '':'' \<in> set url1 \<and> head \<noteq> []
                   \<and> isascii [hd url1] \<and> hd url1 \<in> set (ascii_lowercase @ ascii_uppercase)
                   \<and> (\<forall>c \<in> set head. c \<in> set scheme_chars));
          scheme2 = (if found then lower head else scheme1);
          url2 = (if found then after (CHR '':'') url1 else url1);
          has_netloc = (take 2 url2 = ''//'');
          netloc2 = (if has_netloc then fst (splitnetloc url2) else []);
          url3 = (if has_netloc then snd (splitnetloc url2) else url2)
      in if has_netloc \<and> ((CHR ''['' \<in> set netloc2 \<and> CHR '']'' \<notin> set netloc2)
                          \<or> (CHR '']'' \<in> set netloc2 \<and> CHR ''['' \<notin> set netloc2))
         then Inl ValueError
         else if has_netloc \<and> CHR ''['' \<in> set netloc2 \<and> CHR '']'' \<in> set netloc2
                 \<and> \<not> bracketed_netloc_ok w netloc2
         then Inl ValueError
         else
           (let fragment2 = (if CHR ''#'' \<in> set url3 then after (CHR ''#'') url3 else []);
                url4 = (if CHR ''#'' \<in> set url3 then before (CHR ''#'') url3 else url3);
                query2 = (if CHR ''?'' \<in> set url4 then after (CHR ''?'') url4 else []);
                url5 = (if CHR ''?'' \<in> set url4 then before (CHR ''?'') url4 else url4)
            in if netloc2 \<noteq> [] \<and> \<not> isascii netloc2 \<and> \<not> nfkc_netloc_ok w netloc2
               then Inl ValueError
               else Inr \<lparr>scheme = scheme2, netloc = netloc2, path = url5,
                          query = query2, fragment = fragment2\<rparr>))"

text \<open>
  \<^verbatim>\<open>_splitparams\<close>, called when the path holds a \<^verbatim>\<open>;\<close>: the parameters start at the
  first \<^verbatim>\<open>;\<close> of the last path segment.
\<close>

definition splitparams :: "string \<Rightarrow> string \<times> string" where
  "splitparams url =
     (if CHR ''/'' \<in> set url
      then (let j = length url - 1 - length (before (CHR ''/'') (rev url));
                seg = drop j url
            in if CHR '';'' \<in> set seg
               then (take j url @ before (CHR '';'') seg, after (CHR '';'') seg)
               else (url, []))
      else (before (CHR '';'') url, after (CHR '';'') url))"

definition urlparse :: "world \<Rightarrow> string \<Rightarrow> string \<Rightarrow> exn + parse_result" where
  "urlparse w url scheme0 =
     (case urlsplit w url scheme0 of
        Inl e \<Rightarrow> Inl e
      | Inr r \<Rightarrow>
          if scheme r \<in> set uses_params \<and> CHR '';'' \<in> set (path r)
          then Inr \<lparr>scheme = scheme r, netloc = netloc r, path = fst (splitparams (path r)),
                     query = query r, fragment = fragment r, params = snd (splitparams (path r))\<rparr>
          else Inr \<lparr>scheme = scheme r, netloc = netloc r, path = path r,
                     query = query r, fragment = fragment r, params = []\<rparr>)"

definition urlunsplit :: "split_result \<Rightarrow> string" where
  "urlunsplit r =
     (let url1 = (if netloc r \<noteq> [] \<or> (scheme r \<noteq> [] \<and> scheme r \<in> set uses_netloc
                                          \<and> take 2 (path r) \<noteq> ''//'')
                  then ''//'' @ netloc r
                       @ (if path r \<noteq> [] \<and> take 1 (path r) \<noteq> ''/'' then ''/'' @ path r else path r)
                  else path r);
          url2 = (if scheme r \<noteq> [] then scheme r @ '':'' @ url1 else url1);
          url3 = (if query r \<noteq> [] then url2 @ ''?'' @ query r else url2)
      in if fragment r \<noteq> [] then url3 @ ''#'' @ fragment r else url3)"

definition urlunparse :: "parse_result \<Rightarrow> string" where
  "urlunparse r =
     urlunsplit \<lparr>scheme = scheme r, netloc = netloc r,
                 path = (if params r \<noteq> [] then path r @ '';'' @ params r else path r),
                 query = query r, fragment = fragment r\<rparr>"

text \<open>
  The slice assignment \<^verbatim>\<open>segments[1:-1] = filter(None, segments[1:-1])\<close> drops the empty
  segments that are neither the first nor the last.
\<close>

fun drop_inner_empty :: "string list \<Rightarrow> string list" where
  "drop_inner_empty [] = []"
| "drop_inner_empty [x] = [x]"
| "drop_inner_empty (x # y # ys) =
     x # filter (\<lambda>seg. seg \<noteq> []) (butlast (y # ys)) @ [last (y # ys)]"

text \<open>The loop over the segments: \<^verbatim>\<open>..\<close> pops (nothing, if nothing is left), \<^verbatim>\<open>.\<close> is skipped.\<close>

fun resolve_segments :: "string list \<Rightarrow> string list \<Rightarrow> string list" where
  "resolve_segments resolved_path [] = resolved_path"
| "resolve_segments resolved_path (seg # segs) =
     (if seg = ''..'' then resolve_segments (butlast resolved_path) segs
      else if seg = ''.'' then resolve_segments resolved_path segs
      else resolve_segments (resolved_path @ [seg]) segs)"

text \<open>
  The second half of \<^verbatim>\<open>urljoin\<close>: the path of the relative reference is resolved
  against the path of the base.
\<close>

definition resolve_path :: "string \<Rightarrow> string \<Rightarrow> string" where
  "resolve_path bpath path0 =
     (let parts = split_on (CHR ''/'') bpath;
          base_parts = (if last parts \<noteq> [] then butlast parts else parts);
          segments = (if take 1 path0 = ''/''
                      then split_on (CHR ''/'') path0
                      else drop_inner_empty (base_parts @ split_on (CHR ''/'') path0));
          resolved = resolve_segments [] segments;
          resolved_path = (if last segments \<in> {''.'', ''..''} then resolved @ [[]] else resolved);
          joined = join_with ''/'' resolved_path
      in if joined = [] then ''/'' else joined)"

text \<open>
  \<^verbatim>\<open>urljoin(base, url)\<close>. The program passes a string for \<^verbatim>\<open>url\<close> and whatever the
  configuration holds for \<^verbatim>\<open>base\<close>; a base that is true and not a string makes
  \<^verbatim>\<open>_coerce_args\<close> raise \<^verbatim>\<open>TypeError\<close>.
\<close>

definition join_parsed :: "parse_result \<Rightarrow> parse_result \<Rightarrow> string \<Rightarrow> string" where
  "join_parsed bp up url =
     (if scheme up \<noteq> scheme bp \<or> scheme up \<notin> set uses_relative then url
      else if scheme up \<in> set uses_netloc \<and> netloc up \<noteq> [] then urlunparse up
      else
        (let netloc1 = (if scheme up \<in> set uses_netloc then netloc bp else netloc up)
         in if path up = [] \<and> params up = []
            then urlunparse (up\<lparr>netloc := netloc1, path := path bp, params := params bp,
                                query := (if query up = [] then query bp else query up)\<rparr>)
            else urlunparse (up\<lparr>netloc := netloc1, path := resolve_path (path bp) (path up)\<rparr>)))"

definition urljoin :: "world \<Rightarrow> json \<Rightarrow> string \<Rightarrow> exn + json" where
  "urljoin w base url =
     (if \<not> truthy base then Inr (JStr url)
      else if url = [] then Inr base
      else case base of
        JStr b \<Rightarrow>
          (case urlparse w b [] of
             Inl e \<Rightarrow> Inl e
           | Inr bp \<Rightarrow>
              (case urlparse w url (scheme bp) of
                 Inl e \<Rightarrow> Inl e
               | Inr up \<Rightarrow> Inr (JStr (join_parsed bp up url))))
      | _ \<Rightarrow> Inl TypeError)"

section \<open>The state of a run\<close>

text \<open>One constructor for each kind of line the program prints.\<close>

datatype printed =
    Print string
  | Invalid_config string
  | Target_URL json
  | OpenAPI_File json
  | ZAP_Proxy json
  | Loading json
  | File_not_found json
  | Invalid_JSON_format json
  | Request_line nat string json
  | Status_line int
  | Warning_line string
  | Error_line string
  | Completed nat
  | Results_saved string

text \<open>
  One request of the run with what came back, and the loop variables it was made under.
  The program keeps no such record; the run's \<open>history\<close> is there to state what was sent.
\<close>

record exchange =
  ex_path :: string
  ex_method :: string
  ex_payload :: string
  ex_request :: request
  ex_outcome :: outcome

text \<open>
  The module-level list \<^verbatim>\<open>PositiveResponses\<close>, the counter of
  \<^verbatim>\<open>fuzz_path_parameters\<close>, what has been printed, what has been sent, and the files
  written (name to content).
\<close>

record state =
  PositiveResponses :: "string list"
  RequestsCount :: nat
  stdout :: "printed list"
  history :: "exchange list"
  files :: "string \<rightharpoonup> string"

definition init_state :: state where
  "init_state = \<lparr>PositiveResponses = [], RequestsCount = 0, stdout = [], history = [],
                  files = Map.empty\<rparr>"

definition emit :: "printed \<Rightarrow> state \<Rightarrow> state" where
  "emit line st = st\<lparr>stdout := stdout st @ [line]\<rparr>"

text \<open>
  A \<^verbatim>\<open>for\<close> loop whose body may raise: the exception ends the loop and travels on with the
  state reached.
\<close>

fun for_each :: "('a \<Rightarrow> 's \<Rightarrow> exn option \<times> 's) \<Rightarrow> 'a list \<Rightarrow> 's \<Rightarrow> exn option \<times> 's" where
  "for_each body [] s = (None, s)"
| "for_each body (x # xs) s =
     (case body x s of
        (None, s') \<Rightarrow> for_each body xs s'
      | (Some e, s') \<Rightarrow> (Some e, s'))"

section \<open>\<^verbatim>\<open>fuzz_path_parameters\<close>\<close>

definition FUZZ_PAYLOADS :: "string list" where
  "FUZZ_PAYLOADS = [''1'', ''0'', ''6,5'', ''24'', ''-5'', ''*&^$'', ''text'']"

text \<open>\<^verbatim>\<open>d.items()\<close>.\<close>

fun items :: "json \<Rightarrow> exn + (string \<times> json) list" where
  "items (JObj kvs) = Inr kvs"
| "items _ = Inl AttributeError"

text \<open>
  The comprehension \<^verbatim>\<open>[p for p in ... if p.get('in') == 'path']\<close>: it raises at the
  first element that is not a dict.
\<close>

fun select_path_params :: "json list \<Rightarrow> exn + json list" where
  "select_path_params [] = Inr []"
| "select_path_params (p # ps) =
     (case dict_get p ''in'' JNull of
        Inl e \<Rightarrow> Inl e
      | Inr loc \<Rightarrow>
          (case select_path_params ps of
             Inl e \<Rightarrow> Inl e
           | Inr rest \<Rightarrow> Inr (if loc = JStr ''path'' then p # rest else rest)))"

definition path_params_of :: "json \<Rightarrow> exn + json list" where
  "path_params_of operation =
     (case dict_get operation ''parameters'' (JArr []) of
        Inl e \<Rightarrow> Inl e
      | Inr ps \<Rightarrow> (case iterate ps of Inl e \<Rightarrow> Inl e | Inr xs \<Rightarrow> select_path_params xs))"

text \<open>The f-string \<^verbatim>\<open>f'{{{param["name"]}}}'\<close> around an already fetched name.\<close>

fun placeholder :: "world \<Rightarrow> json \<Rightarrow> string" where
  "placeholder w (JStr name) = ''{'' @ name @ ''}''"
| "placeholder w v = ''{'' @ str_of w v @ ''}''"

text \<open>The inner loop over \<^verbatim>\<open>path_params\<close>; \<^verbatim>\<open>param["name"]\<close> may raise \<^verbatim>\<open>KeyError\<close>.\<close>

fun substitute :: "world \<Rightarrow> json list \<Rightarrow> string \<Rightarrow> string \<Rightarrow> exn + string" where
  "substitute w [] payload fuzzed_path = Inr fuzzed_path"
| "substitute w (param # ps) payload fuzzed_path =
     (case subscript param ''name'' of
        Inl e \<Rightarrow> Inl e
      | Inr name \<Rightarrow> substitute w ps payload (replace (placeholder w name) payload fuzzed_path))"

text \<open>
  The \<^verbatim>\<open>try\<close> statement around \<^verbatim>\<open>requests.request\<close>: the request is the
  \<^verbatim>\<open>RequestsCount\<close>-th of the run; a \<^verbatim>\<open>RequestException\<close> is printed and
  swallowed, any other exception travels on, and \<^verbatim>\<open>finally\<close> counts the request
  in every case.
\<close>

definition try_request :: "world \<Rightarrow> string \<Rightarrow> string \<Rightarrow> string \<Rightarrow> request \<Rightarrow> state
    \<Rightarrow> exn option \<times> state" where
  "try_request w path0 method payload req st =
     (let res = http w (RequestsCount st) req;
          st1 = st\<lparr>history := history st @
                  [\<lparr>ex_path = path0, ex_method = method, ex_payload = payload,
                    ex_request = req, ex_outcome = res\<rparr>]\<rparr>
      in case res of
           Response status_code \<Rightarrow>
             (let st2 = emit (Status_line status_code) st1;
                  st3 = (if status_code = 200 \<and> path0 \<notin> set (PositiveResponses st2)
                         then emit (Warning_line path0)
                                (st2\<lparr>PositiveResponses := PositiveResponses st2 @ [path0]\<rparr>)
                         else st2)
              in (None, st3\<lparr>RequestsCount := RequestsCount st3 + 1\<rparr>))
         | Raised (RequestException msg) \<Rightarrow>
             (let st2 = emit (Error_line msg) st1
              in (None, st2\<lparr>RequestsCount := RequestsCount st2 + 1\<rparr>))
         | Raised e \<Rightarrow> (Some e, st1\<lparr>RequestsCount := RequestsCount st1 + 1\<rparr>))"

text \<open>
  The body of \<^verbatim>\<open>for payload in FUZZ_PAYLOADS\<close>. The line printed before the request
  shows \<^verbatim>\<open>method.upper()\<close>; \<open>Request_line\<close> keeps the method as it is sent.
\<close>

definition fuzz_payload :: "world \<Rightarrow> json \<Rightarrow> json \<Rightarrow> string \<Rightarrow> string \<Rightarrow> json list
    \<Rightarrow> string \<Rightarrow> state \<Rightarrow> exn option \<times> state" where
  "fuzz_payload w base_url proxy path0 method path_params payload st =
     (case substitute w path_params payload path0 of
        Inl e \<Rightarrow> (Some e, st)
      | Inr fuzzed_path \<Rightarrow>
          (case urljoin w base_url (lstrip ''/'' fuzzed_path) of
             Inl e \<Rightarrow> (Some e, st)
           | Inr full_url \<Rightarrow>
               try_request w path0 method payload
                 \<lparr>req_method = method, req_url = full_url, req_proxy = proxy\<rparr>
                 (emit (Request_line (RequestsCount st) method full_url) st)))"

text \<open>The body of \<^verbatim>\<open>for method, operation in path_data.items()\<close>.\<close>

definition fuzz_operation :: "world \<Rightarrow> json \<Rightarrow> json \<Rightarrow> string \<Rightarrow> string \<times> json
    \<Rightarrow> state \<Rightarrow> exn option \<times> state" where
  "fuzz_operation w base_url proxy path0 entry st =
     (case path_params_of (snd entry) of
        Inl e \<Rightarrow> (Some e, st)
      | Inr path_params \<Rightarrow>
          if path_params = [] then (None, st)
          else for_each (fuzz_payload w base_url proxy path0 (fst entry) path_params)
                 FUZZ_PAYLOADS st)"

text \<open>The body of \<^verbatim>\<open>for path, path_data in spec.get('paths', {}).items()\<close>.\<close>

definition fuzz_path :: "world \<Rightarrow> json \<Rightarrow> json \<Rightarrow> string \<times> json \<Rightarrow> state
    \<Rightarrow> exn option \<times> state" where
  "fuzz_path w base_url proxy entry st =
     (case items (snd entry) of
        Inl e \<Rightarrow> (Some e, st)
      | Inr operations \<Rightarrow> for_each (fuzz_operation w base_url proxy (fst entry)) operations st)"

definition fuzz_path_parameters :: "world \<Rightarrow> json \<Rightarrow> json \<Rightarrow> json \<Rightarrow> state
    \<Rightarrow> exn option \<times> state" where
  "fuzz_path_parameters w spec base_url proxy st =
     (let st1 = (emit (Print ''Starting fuzzing process...\<newline>'') st)\<lparr>RequestsCount := 1\<rparr>
      in case dict_get spec ''paths'' (JObj []) of
           Inl e \<Rightarrow> (Some e, st1)
         | Inr paths \<Rightarrow>
             (case items paths of
                Inl e \<Rightarrow> (Some e, st1)
              | Inr entries \<Rightarrow>
                  (case for_each (fuzz_path w base_url proxy) entries st1 of
                     (None, st2) \<Rightarrow> (None, emit (Completed (RequestsCount st2 - 1)) st2)
                   | (Some e, st2) \<Rightarrow> (Some e, st2))))"

section \<open>\<^verbatim>\<open>save_results\<close>\<close>

definition two_digits :: "nat \<Rightarrow> string" where
  "two_digits n = [''0123456789'' ! (n div 10 mod 10), ''0123456789'' ! (n mod 10)]"

text \<open>\<^verbatim>\<open>strftime("%H-%M-%S_%d-%m-%y")\<close>.\<close>

definition strftime :: "datetime \<Rightarrow> string" where
  "strftime t = two_digits (hour t) @ ''-'' @ two_digits (minute t) @ ''-'' @ two_digits (second t)
     @ ''_'' @ two_digits (day t) @ ''-'' @ two_digits (month t) @ ''-'' @ two_digits (year t mod 100)"

text \<open>What the three \<^verbatim>\<open>f.write\<close> calls put into the file.\<close>

definition report :: "string list \<Rightarrow> string" where
  "report pathList =
     ''Endpoints that returned 200 OK with fuzzed payloads:\<newline>''
     @ (replicate 50 (CHR ''='') @ ''\<newline>\<newline>'')
     @ join_with ''\<newline>'' pathList"

definition save_results :: "world \<Rightarrow> string list \<Rightarrow> state \<Rightarrow> state" where
  "save_results w pathList st =
     (if pathList \<noteq> []
      then (let timestamp = strftime (now w);
                filename = ''results_'' @ timestamp @ ''.txt''
            in emit (Results_saved filename)
                 (st\<lparr>files := (files st)(filename \<mapsto> report pathList)\<rparr>))
      else emit (Print ''\<newline>No vulnerable endpoints found'') st)"

section \<open>Configuration and the driver\<close>

definition DEFAULT_CONFIG :: json where
  "DEFAULT_CONFIG = JObj [(''base_url'', JStr ''https://api.example.com''),
                          (''openapi_file'', JStr ''openapi.json''),
                          (''zap_proxy'', JStr ''http://127.0.0.1:8080'')]"

text \<open>
  \<^verbatim>\<open>load_config\<close> catches \<^verbatim>\<open>json.JSONDecodeError\<close> only; a file that exists and
  parses is returned as it is, whatever it holds.
\<close>

definition load_config :: "world \<Rightarrow> string \<Rightarrow> state \<Rightarrow> (exn + json) \<times> state" where
  "load_config w config_file st =
     (if path_exists w config_file
      then (case read_json w (JStr config_file) of
              Loaded doc \<Rightarrow> (Inr doc, st)
            | ReadFails JSONDecodeError \<Rightarrow> (Inr DEFAULT_CONFIG, emit (Invalid_config config_file) st)
            | ReadFails e \<Rightarrow> (Inl e, st))
      else (Inr DEFAULT_CONFIG, st))"

text \<open>The namespace \<^verbatim>\<open>parse_arguments\<close> returns; a flag that is not given is \<^verbatim>\<open>None\<close>.\<close>

record args =
  arg_url :: "string option"
  arg_file :: "string option"
  arg_config :: string

text \<open>\<^verbatim>\<open>flag if flag else config[key]\<close>: an empty flag counts as not given.\<close>

definition flag_or :: "string option \<Rightarrow> json \<Rightarrow> string \<Rightarrow> exn + json" where
  "flag_or flag config key =
     (case flag of
        None \<Rightarrow> subscript config key
      | Some v \<Rightarrow> if v \<noteq> [] then Inr (JStr v) else subscript config key)"

record run_config =
  BASE_URL :: json
  OPENAPI_FILE :: json
  ZAP_PROXY_HOST :: json

text \<open>The first lines of the main block, up to \<^verbatim>\<open>ZAP_PROXY_HOST\<close>.\<close>

definition configure :: "world \<Rightarrow> args \<Rightarrow> state \<Rightarrow> (exn + run_config) \<times> state" where
  "configure w a st =
     (case load_config w (arg_config a) st of
        (Inl e, st1) \<Rightarrow> (Inl e, st1)
      | (Inr config, st1) \<Rightarrow>
          (case flag_or (arg_url a) config ''base_url'' of
             Inl e \<Rightarrow> (Inl e, st1)
           | Inr base_url \<Rightarrow>
               (case flag_or (arg_file a) config ''openapi_file'' of
                  Inl e \<Rightarrow> (Inl e, st1)
                | Inr openapi_file \<Rightarrow>
                    (case subscript config ''zap_proxy'' of
                       Inl e \<Rightarrow> (Inl e, st1)
                     | Inr zap \<Rightarrow>
                         (Inr \<lparr>BASE_URL = base_url, OPENAPI_FILE = openapi_file,
                               ZAP_PROXY_HOST = zap\<rparr>, st1)))))"

definition load_openapi_spec :: "world \<Rightarrow> json \<Rightarrow> state \<Rightarrow> (exn + json) \<times> state" where
  "load_openapi_spec w file_path st =
     (let st1 = emit (Loading file_path) st
      in case read_json w file_path of
           Loaded doc \<Rightarrow> (Inr doc, st1)
         | ReadFails FileNotFoundError \<Rightarrow> (Inr JNull, emit (File_not_found file_path) st1)
         | ReadFails JSONDecodeError \<Rightarrow> (Inr JNull, emit (Invalid_JSON_format file_path) st1)
         | ReadFails e \<Rightarrow> (Inl e, st1))"

definition banner :: "run_config \<Rightarrow> state \<Rightarrow> state" where
  "banner c st =
     foldl (\<lambda>s line. emit line s) st
       [Print (replicate 60 (CHR ''='')), Print ''API BOLA Vulnerability Fuzzer'',
        Print (replicate 60 (CHR ''='')), Target_URL (BASE_URL c), OpenAPI_File (OPENAPI_FILE c),
        ZAP_Proxy (ZAP_PROXY_HOST c), Print (replicate 60 (CHR ''='') @ ''\<newline>'')]"

text \<open>The body of the \<^verbatim>\<open>try\<close> statement of the main block.\<close>

definition load_and_fuzz :: "world \<Rightarrow> run_config \<Rightarrow> state \<Rightarrow> exn option \<times> state" where
  "load_and_fuzz w c st =
     (case load_openapi_spec w (OPENAPI_FILE c) st of
        (Inl e, st1) \<Rightarrow> (Some e, st1)
      | (Inr spec, st1) \<Rightarrow>
          if truthy spec then fuzz_path_parameters w spec (BASE_URL c) (ZAP_PROXY_HOST c) st1
          else (None, st1))"

text \<open>
  The \<^verbatim>\<open>try\<close> statement: \<^verbatim>\<open>except KeyboardInterrupt\<close> swallows the interrupt,
  \<^verbatim>\<open>finally\<close> saves the results whatever happened, and an exception that was not caught
  travels on after that.
\<close>

definition guarded_run :: "world \<Rightarrow> run_config \<Rightarrow> state \<Rightarrow> exn option \<times> state" where
  "guarded_run w c st =
     (case load_and_fuzz w c st of
        (Some KeyboardInterrupt, st1) \<Rightarrow>
          (let st2 = emit (Print ''\<newline>\<newline>Fuzzing interrupted by user'') st1
           in (None, save_results w (PositiveResponses st2) st2))
      | (r, st1) \<Rightarrow> (r, save_results w (PositiveResponses st1) st1))"

text \<open>
  The main block. The result is the exception the process dies of, if any, and the state
  it leaves behind.
\<close>

definition main :: "world \<Rightarrow> args \<Rightarrow> exn option \<times> state" where
  "main w a =
     (case configure w a init_state of
        (Inl e, st1) \<Rightarrow> (Some e, st1)
      | (Inr c, st1) \<Rightarrow> guarded_run w c (banner c st1))"

section \<open>Notions used to state the properties\<close>

text \<open>The path templates of the exchanges that were answered with status 200, in order.\<close>

definition flagged :: "exchange list \<Rightarrow> string list" where
  "flagged xs = map ex_path (filter (\<lambda>x. ex_outcome x = Response 200) xs)"

text \<open>Appending a path to a list that does not hold it yet.\<close>

definition add_path :: "string list \<Rightarrow> string \<Rightarrow> string list" where
  "add_path fs p = (if p \<in> set fs then fs else fs @ [p])"

text \<open>
  How a later state of the run relates to an earlier one: exchanges were added to the
  history, the flagged paths among them were added to the findings, and no file was written.
\<close>

definition progress :: "state \<Rightarrow> state \<Rightarrow> bool" where
  "progress st st' \<longleftrightarrow>
     (\<exists>new. history st' = history st @ new
        \<and> PositiveResponses st' = foldl add_path (PositiveResponses st) (flagged new))
     \<and> files st' = files st"

text \<open>The list without the later repetitions of an element.\<close>

definition first_occurrences :: "'a list \<Rightarrow> 'a list" where
  "first_occurrences xs = rev (remdups (rev xs))"

text \<open>The value a command-line flag decides when it is given and not empty.\<close>

definition flag_value :: "string option \<Rightarrow> json \<Rightarrow> json" where
  "flag_value flag v = (case flag of None \<Rightarrow> v | Some s \<Rightarrow> if s \<noteq> [] then JStr s else v)"

text \<open>Nothing but printing (and the counter) separates two states.\<close>

definition silent :: "state \<Rightarrow> state \<Rightarrow> bool" where
  "silent st st' \<longleftrightarrow>
     history st' = history st \<and> PositiveResponses st' = PositiveResponses st
     \<and> files st' = files st"

text \<open>
  A path template as OpenAPI writes it: literal text and placeholders, a parameter name
  between braces. Neither the literal text nor a name holds a brace.
\<close>

datatype piece = Lit string | Param string

fun render_piece :: "piece \<Rightarrow> string" where
  "render_piece (Lit s) = s"
| "render_piece (Param n) = ''{'' @ n @ ''}''"

definition render :: "piece list \<Rightarrow> string" where
  "render ps = concat (map render_piece ps)"

definition no_brace :: "string \<Rightarrow> bool" where
  "no_brace s \<longleftrightarrow> CHR ''{'' \<notin> set s \<and> CHR ''}'' \<notin> set s"

fun plain_piece :: "piece \<Rightarrow> bool" where
  "plain_piece (Lit s) = no_brace s"
| "plain_piece (Param n) = no_brace n"

text \<open>The template with the payload in the place of every placeholder of the given names.\<close>

fun fill_piece :: "string \<Rightarrow> string list \<Rightarrow> piece \<Rightarrow> string" where
  "fill_piece payload names (Lit s) = s"
| "fill_piece payload names (Param n) = (if n \<in> set names then payload else ''{'' @ n @ ''}'')"

definition fill :: "string \<Rightarrow> string list \<Rightarrow> piece list \<Rightarrow> string" where
  "fill payload names ps = concat (map (fill_piece payload names) ps)"


text \<open>
  The requests a specification asks for, in the words of the specification's reader: the
  (path, method) pairs of the document's \<^verbatim>\<open>paths\<close> that have at least one parameter
  with location \<^verbatim>\<open>path\<close>, each with the seven payloads in their order.
\<close>

definition paths_of :: "json \<Rightarrow> (string \<times> json) list" where
  "paths_of spec =
     (case spec of
        JObj kvs \<Rightarrow> (case map_of kvs ''paths'' of Some (JObj ps) \<Rightarrow> ps | _ \<Rightarrow> [])
      | _ \<Rightarrow> [])"

definition operations_of :: "json \<Rightarrow> (string \<times> json) list" where
  "operations_of path_data = (case path_data of JObj ops \<Rightarrow> ops | _ \<Rightarrow> [])"

fun is_path_parameter :: "json \<Rightarrow> bool" where
  "is_path_parameter (JObj attrs) = (map_of attrs ''in'' = Some (JStr ''path''))"
| "is_path_parameter _ = False"

definition has_path_parameter :: "json \<Rightarrow> bool" where
  "has_path_parameter operation =
     (case operation of
        JObj kvs \<Rightarrow>
          (case map_of kvs ''parameters'' of
             Some (JArr ps) \<Rightarrow> list_ex is_path_parameter ps
           | _ \<Rightarrow> False)
      | _ \<Rightarrow> False)"

definition fuzzable_pairs :: "json \<Rightarrow> (string \<times> string) list" where
  "fuzzable_pairs spec =
     concat (map (\<lambda>entry. map (\<lambda>op. (fst entry, fst op))
                            (filter (\<lambda>op. has_path_parameter (snd op))
                               (operations_of (snd entry))))
               (paths_of spec))"

definition expected_requests :: "json \<Rightarrow> (string \<times> string \<times> string) list" where
  "expected_requests spec =
     concat (map (\<lambda>pair. map (\<lambda>payload. (fst pair, snd pair, payload))
                           [''1'', ''0'', ''6,5'', ''24'', ''-5'', ''*&^$'', ''text''])
               (fuzzable_pairs spec))"

text \<open>The loop variables an exchange was made under.\<close>

definition sent_key :: "exchange \<Rightarrow> string \<times> string \<times> string" where
  "sent_key x = (ex_path x, ex_method x, ex_payload x)"

text \<open>The same requests, grouped the way the loops meet them.\<close>

definition operation_requests :: "string \<Rightarrow> string \<times> json \<Rightarrow> (string \<times> string \<times> string) list" where
  "operation_requests p op =
     (if has_path_parameter (snd op)
      then map (\<lambda>payload. (p, fst op, payload))
             [''1'', ''0'', ''6,5'', ''24'', ''-5'', ''*&^$'', ''text'']
      else [])"

definition path_requests :: "string \<times> json \<Rightarrow> (string \<times> string \<times> string) list" where
  "path_requests entry =
     concat (map (operation_requests (fst entry)) (operations_of (snd entry)))"

text \<open>
  A specification of the shape the data model describes: \<^verbatim>\<open>paths\<close>, when present, maps
  path templates to objects that map methods to operation objects, whose
  \<^verbatim>\<open>parameters\<close>, when present, are a list of objects.
\<close>

fun is_object :: "json \<Rightarrow> bool" where
  "is_object (JObj kvs) = True"
| "is_object _ = False"

definition well_formed_operation :: "json \<Rightarrow> bool" where
  "well_formed_operation operation =
     (case operation of
        JObj kvs \<Rightarrow>
          (case map_of kvs ''parameters'' of
             None \<Rightarrow> True
           | Some (JArr ps) \<Rightarrow> list_all is_object ps
           | Some _ \<Rightarrow> False)
      | _ \<Rightarrow> False)"

definition well_formed_path_item :: "json \<Rightarrow> bool" where
  "well_formed_path_item path_data =
     (case path_data of
        JObj ops \<Rightarrow> list_all (\<lambda>op. well_formed_operation (snd op)) ops
      | _ \<Rightarrow> False)"

definition well_formed_spec :: "json \<Rightarrow> bool" where
  "well_formed_spec spec =
     (case spec of
        JObj kvs \<Rightarrow>
          (case map_of kvs ''paths'' of
             None \<Rightarrow> True
           | Some (JObj entries) \<Rightarrow> list_all (\<lambda>entry. well_formed_path_item (snd entry)) entries
           | Some _ \<Rightarrow> False)
      | _ \<Rightarrow> False)"

text \<open>The network answers every request or fails with a \<^verbatim>\<open>RequestException\<close>.\<close>

fun answered :: "outcome \<Rightarrow> bool" where
  "answered (Response code) = True"
| "answered (Raised (RequestException msg)) = True"
| "answered (Raised e) = False"

definition network_answers :: "world \<Rightarrow> bool" where
  "network_answers w \<longleftrightarrow> (\<forall>n r. answered (http w n r))"

text \<open>
  The target of one request: the path parameters of the operation are put into the
  template and the result is joined to the base URL. Every target of a specification
  resolves when none of these steps raises.
\<close>

fun isOK :: "exn + 'a \<Rightarrow> bool" where
  "isOK (Inr v) = True"
| "isOK (Inl e) = False"

definition target :: "world \<Rightarrow> json \<Rightarrow> string \<Rightarrow> json \<Rightarrow> string \<Rightarrow> exn + json" where
  "target w base_url path0 operation payload =
     (case path_params_of operation of
        Inl e \<Rightarrow> Inl e
      | Inr path_params \<Rightarrow>
          (case substitute w path_params payload path0 of
             Inl e \<Rightarrow> Inl e
           | Inr fuzzed_path \<Rightarrow> urljoin w base_url (lstrip ''/'' fuzzed_path)))"

definition targets_resolve :: "world \<Rightarrow> json \<Rightarrow> json \<Rightarrow> bool" where
  "targets_resolve w base_url spec =
     list_all (\<lambda>entry.
        list_all (\<lambda>op.
           has_path_parameter (snd op) \<longrightarrow>
           list_all (\<lambda>payload. isOK (target w base_url (fst entry) (snd op) payload))
             FUZZ_PAYLOADS)
          (operations_of (snd entry)))
       (paths_of spec)"


text \<open>A flag counts as given when it is there and not empty.\<close>

definition flag_given :: "string option \<Rightarrow> bool" where
  "flag_given flag = (case flag of None \<Rightarrow> False | Some s \<Rightarrow> s \<noteq> [])"

text \<open>The value a parsed configuration object holds under a key (\<^verbatim>\<open>None\<close> stands for a missing key).\<close>

definition config_value :: "(string \<times> json) list \<Rightarrow> string \<Rightarrow> json" where
  "config_value kvs key = (case map_of kvs key of None \<Rightarrow> JNull | Some v \<Rightarrow> v)"

text \<open>
  A small run for trying the properties on: one template with one path parameter under
  two methods, of which only \<^verbatim>\<open>get\<close> declares the parameter. The second and the fifth
  request are answered with status 200, the third fails in the network, the rest get 404.
\<close>

definition demo_spec :: json where
  "demo_spec = JObj [(''paths'', JObj [(''/items/{id}'',
     JObj [(''get'', JObj [(''parameters'',
              JArr [JObj [(''name'', JStr ''id''), (''in'', JStr ''path'')],
                    JObj [(''name'', JStr ''verbose''), (''in'', JStr ''query'')]])]),
           (''post'', JObj [(''summary'', JStr ''create'')])])])]"

definition demo_http :: "nat \<Rightarrow> request \<Rightarrow> outcome" where
  "demo_http n r =
     (if n = 2 \<or> n = 5 then Response 200
      else if n = 3 then Raised (RequestException ''timed out'')
      else Response 404)"

definition demo_world :: world where
  "demo_world = \<lparr>http = demo_http, path_exists = (\<lambda>p. False),
      read_json = (\<lambda>p. if p = JStr ''openapi.json'' then Loaded demo_spec
                         else ReadFails FileNotFoundError),
      now = \<lparr>hour = 9, minute = 5, second = 30, day = 3, month = 11, year = 2026\<rparr>,
      str_of = (\<lambda>v. ''?''), bracketed_netloc_ok = (\<lambda>s. False),
      nfkc_netloc_ok = (\<lambda>s. False)\<rparr>"

definition demo_args :: args where
  "demo_args = \<lparr>arg_url = None, arg_file = None, arg_config = ''config.json''\<rparr>"

text \<open>A configuration file that parses and names the base URL only.\<close>

definition partial_config_world :: world where
  "partial_config_world = demo_world
     \<lparr>path_exists := (\<lambda>p. p = ''config.json''),
      read_json := (\<lambda>p. if p = JStr ''config.json''
                         then Loaded (JObj [(''base_url'', JStr ''http://localhost:3000'')])
                         else read_json demo_world p)\<rparr>"

text \<open>A complete configuration file, and a command line that sets the base URL.\<close>

definition full_config_world :: world where
  "full_config_world = demo_world
     \<lparr>path_exists := (\<lambda>p. p = ''config.json''),
      read_json := (\<lambda>p. if p = JStr ''config.json''
                         then Loaded (JObj [(''base_url'', JStr ''http://localhost:3000''),
                                            (''openapi_file'', JStr ''petstore.json''),
                                            (''zap_proxy'', JStr ''http://127.0.0.1:9090'')])
                         else read_json demo_world p)\<rparr>"

definition url_args :: args where
  "url_args = \<lparr>arg_url = Some ''https://staging.example.com'', arg_file = None,
                arg_config = ''config.json''\<rparr>"

text \<open>A specification file that holds a non-empty array.\<close>

definition array_spec_world :: world where
  "array_spec_world = demo_world\<lparr>read_json := (\<lambda>p. Loaded (JArr [JInt 1]))\<rparr>"

text \<open>A specification file that holds an object without \<^verbatim>\<open>paths\<close>, and one that holds \<^verbatim>\<open>0\<close>.\<close>

definition pathless_spec_world :: world where
  "pathless_spec_world = demo_world
     \<lparr>read_json := (\<lambda>p. Loaded (JObj [(''openapi'', JStr ''3.0.0'')]))\<rparr>"

definition zero_spec_world :: world where
  "zero_spec_world = demo_world\<lparr>read_json := (\<lambda>p. Loaded (JInt 0))\<rparr>"

text \<open>No specification file at all.\<close>

definition no_spec_world :: world where
  "no_spec_world = demo_world\<lparr>read_json := (\<lambda>p. ReadFails FileNotFoundError)\<rparr>"

text \<open>The user interrupts the second request; the first one was answered with status 200.\<close>

definition interrupted_world :: world where
  "interrupted_world = demo_world
     \<lparr>http := (\<lambda>n r. if n = 1 then Response 200 else Raised KeyboardInterrupt)\<rparr>"

text \<open>The configuration of a run without a configuration file and without flags.\<close>

definition demo_config :: run_config where
  "demo_config = \<lparr>BASE_URL = JStr ''https://api.example.com'',
                   OPENAPI_FILE = JStr ''openapi.json'',
                   ZAP_PROXY_HOST = JStr ''http://127.0.0.1:8080''\<rparr>"

text \<open>The parameter descriptor of the path parameter \<^verbatim>\<open>id\<close>.\<close>

definition id_param :: json where
  "id_param = JObj [(''name'', JStr ''id''), (''in'', JStr ''path'')]"

text \<open>
  A specification whose path item declares its parameter at the path level, before the
  operation \<^verbatim>\<open>get\<close>, as OpenAPI allows.
\<close>

definition path_level_spec :: json where
  "path_level_spec = JObj [(''paths'', JObj [(''/items/{id}'',
     JObj [(''parameters'', JArr [id_param]),
           (''get'', JObj [(''parameters'', JArr [id_param])])])])]"

text \<open>
  A configuration file that is not JSON; one whose bytes are not UTF-8, so that reading it
  raises \<^verbatim>\<open>UnicodeDecodeError\<close>, a \<^verbatim>\<open>ValueError\<close> that is no \<^verbatim>\<open>JSONDecodeError\<close>; one
  that names everything but the base URL; and one that holds an array.
\<close>

definition malformed_config_world :: world where
  "malformed_config_world = demo_world
     \<lparr>path_exists := (\<lambda>p. p = ''config.json''),
      read_json := (\<lambda>p. if p = JStr ''config.json'' then ReadFails JSONDecodeError
                         else read_json demo_world p)\<rparr>"

definition undecodable_config_world :: world where
  "undecodable_config_world = demo_world
     \<lparr>path_exists := (\<lambda>p. p = ''config.json''),
      read_json := (\<lambda>p. if p = JStr ''config.json'' then ReadFails ValueError
                         else read_json demo_world p)\<rparr>"

definition no_url_config_world :: world where
  "no_url_config_world = demo_world
     \<lparr>path_exists := (\<lambda>p. p = ''config.json''),
      read_json := (\<lambda>p. if p = JStr ''config.json''
                         then Loaded (JObj [(''openapi_file'', JStr ''petstore.json''),
                                            (''zap_proxy'', JStr ''http://127.0.0.1:9090'')])
                         else read_json demo_world p)\<rparr>"

definition array_config_world :: world where
  "array_config_world = demo_world
     \<lparr>path_exists := (\<lambda>p. p = ''config.json''),
      read_json := (\<lambda>p. if p = JStr ''config.json'' then Loaded (JArr [])
                         else read_json demo_world p)\<rparr>"

section \<open>What a run does to the findings\<close>

lemma progress_refl: "progress st st"
  unfolding progress_def by (simp add: flagged_def)

lemma progress_trans:
  assumes "progress a b" and "progress b c"
  shows "progress a c"
proof -
  from assms(1) obtain n1 where 1: "history b = history a @ n1"
    "PositiveResponses b = foldl add_path (PositiveResponses a) (flagged n1)"
    unfolding progress_def by blast
  from assms(2) obtain n2 where 2: "history c = history b @ n2"
    "PositiveResponses c = foldl add_path (PositiveResponses b) (flagged n2)"
    unfolding progress_def by blast
  have "history c = history a @ (n1 @ n2)" using 1 2 by simp
  moreover have "PositiveResponses c = foldl add_path (PositiveResponses a) (flagged (n1 @ n2))"
    using 1 2 by (simp add: flagged_def)
  moreover have "files c = files a" using assms unfolding progress_def by simp
  ultimately show ?thesis unfolding progress_def by blast
qed

lemma progress_same:
  "history st' = history st \<Longrightarrow> PositiveResponses st' = PositiveResponses st
     \<Longrightarrow> files st' = files st \<Longrightarrow> progress st st'"
  unfolding progress_def by (simp add: flagged_def)

lemma for_each_progress:
  assumes "\<And>x s. progress s (snd (body x s))"
  shows "progress s (snd (for_each body xs s))"
proof (induction xs arbitrary: s)
  case Nil
  show ?case by (simp add: progress_refl)
next
  case (Cons x xs)
  obtain r s' where b: "body x s = (r, s')" by (cases "body x s")
  have p: "progress s s'" using assms [of s x] b by simp
  show ?case
  proof (cases r)
    case None
    with b have "snd (for_each body (x # xs) s) = snd (for_each body xs s')" by simp
    with Cons [of s'] p show ?thesis by (metis progress_trans)
  next
    case (Some e)
    with b p show ?thesis by simp
  qed
qed

lemma try_request_history:
  "history (snd (try_request w p m pl req st)) = history st @
     [\<lparr>ex_path = p, ex_method = m, ex_payload = pl, ex_request = req,
       ex_outcome = http w (RequestsCount st) req\<rparr>]"
proof (cases "http w (RequestsCount st) req")
  case (Response code)
  then show ?thesis by (simp add: try_request_def emit_def Let_def)
next
  case (Raised e)
  then show ?thesis by (cases e) (simp_all add: try_request_def emit_def Let_def)
qed

lemma try_request_findings:
  "PositiveResponses (snd (try_request w p m pl req st)) =
     (if http w (RequestsCount st) req = Response 200 then add_path (PositiveResponses st) p
      else PositiveResponses st)"
proof (cases "http w (RequestsCount st) req")
  case (Response code)
  then show ?thesis by (simp add: try_request_def emit_def Let_def add_path_def)
next
  case (Raised e)
  then show ?thesis by (cases e) (simp_all add: try_request_def emit_def Let_def)
qed

lemma try_request_files: "files (snd (try_request w p m pl req st)) = files st"
proof (cases "http w (RequestsCount st) req")
  case (Response code)
  then show ?thesis by (simp add: try_request_def emit_def Let_def)
next
  case (Raised e)
  then show ?thesis by (cases e) (simp_all add: try_request_def emit_def Let_def)
qed

lemma try_request_progress: "progress st (snd (try_request w p m pl req st))"
proof -
  let ?x = "\<lparr>ex_path = p, ex_method = m, ex_payload = pl, ex_request = req,
              ex_outcome = http w (RequestsCount st) req\<rparr>"
  have "history (snd (try_request w p m pl req st)) = history st @ [?x]"
    by (rule try_request_history)
  moreover have "PositiveResponses (snd (try_request w p m pl req st))
      = foldl add_path (PositiveResponses st) (flagged [?x])"
    by (simp add: try_request_findings flagged_def)
  moreover have "files (snd (try_request w p m pl req st)) = files st"
    by (rule try_request_files)
  ultimately show ?thesis unfolding progress_def by blast
qed

lemma progress_emit: "progress st (emit l st)"
  by (rule progress_same) (simp_all add: emit_def)

lemma fuzz_payload_progress: "progress st (snd (fuzz_payload w b px p m pps pl st))"
proof (cases "substitute w pps pl p")
  case (Inl e)
  then show ?thesis by (simp add: fuzz_payload_def progress_refl)
next
  case (Inr fuzzed)
  show ?thesis
  proof (cases "urljoin w b (lstrip ''/'' fuzzed)")
    case (Inl e)
    with Inr show ?thesis by (simp add: fuzz_payload_def progress_refl)
  next
    case (Inr full_url)
    with \<open>substitute w pps pl p = Inr fuzzed\<close> show ?thesis
      by (simp add: fuzz_payload_def progress_trans [OF progress_emit try_request_progress])
  qed
qed

lemma fuzz_operation_progress: "progress st (snd (fuzz_operation w b px p entry st))"
proof (cases "path_params_of (snd entry)")
  case (Inl e)
  then show ?thesis by (simp add: fuzz_operation_def progress_refl)
next
  case (Inr pps)
  then show ?thesis
    by (simp add: fuzz_operation_def progress_refl for_each_progress fuzz_payload_progress)
qed

lemma fuzz_path_progress: "progress st (snd (fuzz_path w b px entry st))"
proof (cases "items (snd entry)")
  case (Inl e)
  then show ?thesis by (simp add: fuzz_path_def progress_refl)
next
  case (Inr ops)
  then show ?thesis
    by (simp add: fuzz_path_def for_each_progress fuzz_operation_progress)
qed

lemma fuzz_path_parameters_progress: "progress st (snd (fuzz_path_parameters w spec b px st))"
proof -
  define st1 where "st1 = (emit (Print ''Starting fuzzing process...\<newline>'') st)\<lparr>RequestsCount := 1\<rparr>"
  have 1: "progress st st1"
    unfolding st1_def by (rule progress_same) (simp_all add: emit_def)
  have eq: "fuzz_path_parameters w spec b px st =
     (case dict_get spec ''paths'' (JObj []) of
        Inl e \<Rightarrow> (Some e, st1)
      | Inr paths \<Rightarrow>
          (case items paths of
             Inl e \<Rightarrow> (Some e, st1)
           | Inr entries \<Rightarrow>
               (case for_each (fuzz_path w b px) entries st1 of
                  (None, st2) \<Rightarrow> (None, emit (Completed (RequestsCount st2 - 1)) st2)
                | (Some e, st2) \<Rightarrow> (Some e, st2))))"
    unfolding fuzz_path_parameters_def st1_def Let_def ..
  have "progress st1 (snd (fuzz_path_parameters w spec b px st))"
  proof (cases "dict_get spec ''paths'' (JObj [])")
    case (Inl e)
    then show ?thesis by (simp add: eq progress_refl)
  next
    case (Inr paths)
    show ?thesis
    proof (cases "items paths")
      case (Inl e)
      with Inr show ?thesis
        by (simp add: eq progress_refl)
    next
      case (Inr entries)
      obtain r st2 where f: "for_each (fuzz_path w b px) entries st1 = (r, st2)"
        by (cases "for_each (fuzz_path w b px) entries st1")
      have 2: "progress st1 st2"
        using for_each_progress [of "fuzz_path w b px" st1 entries, OF fuzz_path_progress] f
        by simp
      show ?thesis
      proof (cases r)
        case None
        with f Inr \<open>dict_get spec ''paths'' (JObj []) = Inr paths\<close>
        have "snd (fuzz_path_parameters w spec b px st) = emit (Completed (RequestsCount st2 - 1)) st2"
          by (simp add: eq)
        with 2 show ?thesis by (metis progress_trans progress_emit)
      next
        case (Some e)
        with f Inr \<open>dict_get spec ''paths'' (JObj []) = Inr paths\<close>
        have "snd (fuzz_path_parameters w spec b px st) = st2"
          by (simp add: eq)
        with 2 show ?thesis by simp
      qed
    qed
  qed
  with 1 show ?thesis by (rule progress_trans)
qed

lemma set_foldl_add_path: "set (foldl add_path fs ps) = set fs \<union> set ps"
  by (induction ps arbitrary: fs) (auto simp: add_path_def)

lemma distinct_foldl_add_path: "distinct fs \<Longrightarrow> distinct (foldl add_path fs ps)"
  by (induction ps arbitrary: fs) (auto simp: add_path_def)

lemma foldl_add_path_first_occurrences:
  "distinct fs \<Longrightarrow> foldl add_path fs ps = first_occurrences (fs @ ps)"
  unfolding first_occurrences_def
proof (induction ps rule: rev_induct)
  case Nil
  then show ?case by (simp add: distinct_remdups_id)
next
  case (snoc p ps)
  then show ?case by (auto simp: add_path_def)
qed

lemma distinct_first_occurrences: "distinct (first_occurrences xs)"
  by (simp add: first_occurrences_def)

lemma set_first_occurrences: "set (first_occurrences xs) = set xs"
  by (simp add: first_occurrences_def)

section \<open>Lines of a text\<close>

lemma split_on_single: "c \<notin> set s \<Longrightarrow> split_on c s = [s]"
  by (induction s) auto

lemma split_on_append: "c \<notin> set s \<Longrightarrow> split_on c (s @ c # t) = s # split_on c t"
  by (induction s) auto

lemma split_on_join_with:
  "xs \<noteq> [] \<Longrightarrow> \<forall>x \<in> set xs. c \<notin> set x \<Longrightarrow> split_on c (join_with [c] xs) = xs"
proof (induction xs)
  case Nil
  then show ?case by simp
next
  case (Cons x xs)
  show ?case
  proof (cases xs)
    case Nil
    with Cons.prems show ?thesis by (simp add: split_on_single)
  next
    case (Cons y ys)
    with Cons.IH Cons.prems have "split_on c (join_with [c] (y # ys)) = y # ys" by simp
    with Cons Cons.prems show ?thesis by (simp add: split_on_append)
  qed
qed

lemma report_lines:
  assumes "pathList \<noteq> []" and "\<forall>p \<in> set pathList. CHR 0x0A \<notin> set p"
  shows "split_on (CHR 0x0A) (report pathList)
     = [''Endpoints that returned 200 OK with fuzzed payloads:'', replicate 50 (CHR ''=''), []]
       @ pathList"
proof -
  define hdr where "hdr = ''Endpoints that returned 200 OK with fuzzed payloads:''"
  define sep where "sep = replicate 50 (CHR ''='')"
  have 1: "CHR 0x0A \<notin> set hdr" by (simp add: hdr_def)
  have 2: "CHR 0x0A \<notin> set sep" by (simp add: sep_def)
  have r: "report pathList = hdr @ CHR 0x0A # (sep @ CHR 0x0A # ([] @ CHR 0x0A # join_with [CHR 0x0A] pathList))"
    by (simp add: report_def hdr_def sep_def)
  have "split_on (CHR 0x0A) (report pathList) = hdr # sep # [] # pathList"
    unfolding r
    by (simp add: split_on_append [OF 1] split_on_append [OF 2] split_on_join_with [OF assms])
  then show ?thesis by (simp add: hdr_def sep_def)
qed

section \<open>The driver around the loop\<close>

lemma silent_refl: "silent st st"
  by (simp add: silent_def)

lemma silent_trans: "silent a b \<Longrightarrow> silent b c \<Longrightarrow> silent a c"
  by (simp add: silent_def)

lemma silent_emit: "silent st (emit l st)"
  by (simp add: silent_def emit_def)

lemma silent_progress: "silent st st' \<Longrightarrow> progress st st'"
  by (simp add: silent_def progress_same)

lemma banner_silent: "silent st (banner c st)"
  by (simp add: silent_def banner_def emit_def)

lemma load_config_silent: "silent st (snd (load_config w f st))"
proof (cases "path_exists w f")
  case False
  then show ?thesis by (simp add: load_config_def silent_refl)
next
  case True
  show ?thesis
  proof (cases "read_json w (JStr f)")
    case (Loaded doc)
    with True show ?thesis by (simp add: load_config_def silent_refl)
  next
    case (ReadFails e)
    with True show ?thesis
      by (cases e) (simp_all add: load_config_def silent_refl silent_emit)
  qed
qed

lemma configure_state: "snd (configure w a st) = snd (load_config w (arg_config a) st)"
  unfolding configure_def by (simp split: prod.split sum.split)

lemma configure_silent: "silent st (snd (configure w a st))"
  by (simp add: configure_state load_config_silent)

lemma load_openapi_spec_silent: "silent st (snd (load_openapi_spec w f st))"
proof -
  have e2: "silent st (emit l2 (emit l1 st))" for l1 l2
    by (simp add: silent_def emit_def)
  show ?thesis
  proof (cases "read_json w f")
    case (Loaded doc)
    then show ?thesis by (simp add: load_openapi_spec_def silent_emit)
  next
    case (ReadFails e)
    then show ?thesis
      by (cases e) (simp_all add: load_openapi_spec_def silent_emit e2)
  qed
qed

lemma load_and_fuzz_progress: "progress st (snd (load_and_fuzz w c st))"
proof -
  obtain r st1 where l: "load_openapi_spec w (OPENAPI_FILE c) st = (r, st1)"
    by (cases "load_openapi_spec w (OPENAPI_FILE c) st")
  have 1: "progress st st1"
    using load_openapi_spec_silent [of st w "OPENAPI_FILE c"] l by (simp add: silent_progress)
  show ?thesis
  proof (cases r)
    case (Inl e)
    with l 1 show ?thesis by (simp add: load_and_fuzz_def)
  next
    case (Inr spec)
    with l 1 show ?thesis
      by (auto simp: load_and_fuzz_def intro: progress_trans [OF _ fuzz_path_parameters_progress])
  qed
qed

text \<open>A specification file that is missing or is not JSON: the loop is skipped.\<close>

lemma load_and_fuzz_no_file:
  assumes "read_json w (OPENAPI_FILE c) = ReadFails FileNotFoundError
           \<or> read_json w (OPENAPI_FILE c) = ReadFails JSONDecodeError"
  shows "fst (load_and_fuzz w c st) = None \<and> silent st (snd (load_and_fuzz w c st))"
  using assms
  by (auto simp: load_and_fuzz_def load_openapi_spec_def silent_def emit_def)

text \<open>A document that is false: the loop is skipped.\<close>

lemma load_and_fuzz_falsy:
  assumes "read_json w (OPENAPI_FILE c) = Loaded doc" and "\<not> truthy doc"
  shows "fst (load_and_fuzz w c st) = None \<and> silent st (snd (load_and_fuzz w c st))"
  using assms
  by (simp add: load_and_fuzz_def load_openapi_spec_def silent_def emit_def)

text \<open>An object without \<^verbatim>\<open>paths\<close>: the loop runs over the empty dict.\<close>

lemma fuzz_path_parameters_no_paths:
  assumes "map_of kvs ''paths'' = None"
  shows "fst (fuzz_path_parameters w (JObj kvs) b px st) = None
     \<and> silent st (snd (fuzz_path_parameters w (JObj kvs) b px st))"
  using assms
  by (simp add: fuzz_path_parameters_def silent_def emit_def)

lemma load_and_fuzz_no_paths:
  assumes "read_json w (OPENAPI_FILE c) = Loaded (JObj kvs)" and "map_of kvs ''paths'' = None"
  shows "fst (load_and_fuzz w c st) = None \<and> silent st (snd (load_and_fuzz w c st))"
proof -
  have l: "load_openapi_spec w (OPENAPI_FILE c) st = (Inr (JObj kvs), emit (Loading (OPENAPI_FILE c)) st)"
    using assms(1) by (simp add: load_openapi_spec_def)
  show ?thesis
  proof (cases "kvs = []")
    case True
    with l show ?thesis by (simp add: load_and_fuzz_def silent_emit)
  next
    case False
    with l have "load_and_fuzz w c st
        = fuzz_path_parameters w (JObj kvs) (BASE_URL c) (ZAP_PROXY_HOST c)
            (emit (Loading (OPENAPI_FILE c)) st)"
      by (simp add: load_and_fuzz_def)
    with fuzz_path_parameters_no_paths [OF assms(2)] show ?thesis
      by (metis silent_emit silent_trans)
  qed
qed

lemma save_results_findings: "PositiveResponses (save_results w p st) = PositiveResponses st"
  by (simp add: save_results_def emit_def Let_def)

lemma save_results_history: "history (save_results w p st) = history st"
  by (simp add: save_results_def emit_def Let_def)

lemma save_results_nothing:
  "files (save_results w [] st) = files st
   \<and> stdout (save_results w [] st)
       = stdout st @ [Print (CHR 0x0A # ''No vulnerable endpoints found'')]"
  by (simp add: save_results_def emit_def)

lemma save_results_something:
  "pathList \<noteq> [] \<Longrightarrow>
   files (save_results w pathList st)
     = (files st)(''results_'' @ strftime (now w) @ ''.txt'' \<mapsto> report pathList)
   \<and> stdout (save_results w pathList st)
       = stdout st @ [Results_saved (''results_'' @ strftime (now w) @ ''.txt'')]"
  by (simp add: save_results_def emit_def Let_def)

text \<open>
  The \<^verbatim>\<open>try\<close> statement in terms of what its body returned: the interrupt is swallowed,
  and the results are saved in every case.
\<close>

lemma guarded_run_result:
  assumes "load_and_fuzz w c st = (r, st1)"
  shows "guarded_run w c st =
     (if r = Some KeyboardInterrupt then None else r,
      save_results w (PositiveResponses st1)
        (if r = Some KeyboardInterrupt
         then emit (Print ''\<newline>\<newline>Fuzzing interrupted by user'') st1 else st1))"
proof (cases r)
  case None
  with assms show ?thesis by (simp add: guarded_run_def)
next
  case (Some e)
  with assms show ?thesis by (cases e) (simp_all add: guarded_run_def emit_def)
qed

text \<open>The state the main block ends in, once the configuration is there.\<close>

lemma main_result:
  assumes "fst (configure w a init_state) = Inr c"
  shows "\<exists>st0 st2.
       silent init_state st0
     \<and> st0 = banner c (snd (configure w a init_state))
     \<and> silent (snd (load_and_fuzz w c st0)) st2
     \<and> main w a = (if fst (load_and_fuzz w c st0) = Some KeyboardInterrupt then None
                    else fst (load_and_fuzz w c st0),
                    save_results w (PositiveResponses st2) st2)
     \<and> files st2 = Map.empty"
proof -
  obtain s0 where c: "configure w a init_state = (Inr c, s0)"
    using assms by (cases "configure w a init_state") simp
  obtain r st1 where l: "load_and_fuzz w c (banner c s0) = (r, st1)"
    by (cases "load_and_fuzz w c (banner c s0)")
  define st2 where "st2 = (if r = Some KeyboardInterrupt
         then emit (Print ''\<newline>\<newline>Fuzzing interrupted by user'') st1 else st1)"
  have s2: "silent st1 st2"
    by (simp add: st2_def silent_emit silent_refl)
  then have p2: "PositiveResponses st2 = PositiveResponses st1"
    by (simp add: silent_def)
  have m: "main w a = (if r = Some KeyboardInterrupt then None else r,
                    save_results w (PositiveResponses st2) st2)"
    using c guarded_run_result [OF l] by (simp add: main_def st2_def emit_def)
  have "silent init_state s0"
    using configure_silent [of init_state w a] c by simp
  then have s0: "silent init_state (banner c s0)"
    by (rule silent_trans) (rule banner_silent)
  then have "progress init_state st1"
    using load_and_fuzz_progress [of "banner c s0" w c] l
    by (auto intro: progress_trans silent_progress)
  then have "files st1 = Map.empty"
    by (simp add: progress_def init_state_def)
  with s2 have "files st2 = Map.empty"
    by (simp add: silent_def)
  with l m c s0 s2 show ?thesis by auto
qed

section \<open>The demo runs, evaluated\<close>

lemma demo_configure:
  "configure demo_world demo_args init_state = (Inr demo_config, init_state)"
  by (simp add: configure_def load_config_def flag_or_def demo_world_def demo_args_def
      demo_config_def DEFAULT_CONFIG_def)

lemma interrupted_run:
  "fst (load_and_fuzz interrupted_world demo_config (banner demo_config init_state))
     = Some KeyboardInterrupt
   \<and> PositiveResponses
        (snd (load_and_fuzz interrupted_world demo_config (banner demo_config init_state)))
     = [''/items/{id}'']"
  by code_simp

section \<open>Replacing placeholders\<close>

lemma replace_from_skip:
  "CHR ''{'' \<notin> set s \<Longrightarrow>
   replace_from (CHR ''{'' # old) new (s @ t) = s @ replace_from (CHR ''{'' # old) new t"
  by (induction s) auto

lemma prefix_same_end:
  "prefix (n @ [c]) (m @ c # t) \<Longrightarrow> c \<notin> set n \<Longrightarrow> c \<notin> set m \<Longrightarrow> n = m"
proof (induction n arbitrary: m)
  case Nil
  then show ?case by (cases m) auto
next
  case (Cons x n)
  then show ?case by (cases m) auto
qed

lemma replace_from_placeholder:
  assumes "no_brace n" and "no_brace m"
  shows "replace_from (''{'' @ n @ ''}'') new (''{'' @ m @ ''}'' @ t)
     = (if m = n then new else ''{'' @ m @ ''}'') @ replace_from (''{'' @ n @ ''}'') new t"
proof (cases "m = n")
  case True
  have "prefix (''{'' @ n @ ''}'') (''{'' @ n @ ''}'' @ t)" by simp
  moreover have "drop (length (''{'' @ n @ ''}'')) (''{'' @ n @ ''}'' @ t) = t" by simp
  ultimately show ?thesis using True by simp
next
  case False
  have np: "\<not> prefix (n @ ''}'') (m @ CHR ''}'' # t)"
    using prefix_same_end [of n "CHR ''}''" m t] assms False by (auto simp: no_brace_def)
  have "CHR ''{'' \<notin> set (m @ ''}'')" using assms by (simp add: no_brace_def)
  from replace_from_skip [OF this, of "n @ ''}''" new t]
  have "replace_from (CHR ''{'' # n @ ''}'') new (m @ CHR ''}'' # t)
      = m @ CHR ''}'' # replace_from (CHR ''{'' # n @ ''}'') new t"
    by simp
  with np False show ?thesis by simp
qed

lemma replace_render:
  assumes "no_brace n" and "\<forall>p \<in> set ps. plain_piece p"
  shows "replace (''{'' @ n @ ''}'') new (render ps)
     = render (map (\<lambda>p. if p = Param n then Lit new else p) ps)"
proof -
  have "replace_from (''{'' @ n @ ''}'') new (render ps)
     = render (map (\<lambda>p. if p = Param n then Lit new else p) ps)"
    using assms(2)
  proof (induction ps)
    case Nil
    then show ?case by (simp add: render_def)
  next
    case (Cons p ps)
    then have ih: "replace_from (''{'' @ n @ ''}'') new (render ps)
       = render (map (\<lambda>p. if p = Param n then Lit new else p) ps)"
      by simp
    show ?case
    proof (cases p)
      case (Lit s)
      with Cons.prems have "CHR ''{'' \<notin> set s" by (simp add: no_brace_def)
      from replace_from_skip [OF this, of "n @ ''}''" new "render ps"] ih Lit
      show ?thesis by (simp add: render_def)
    next
      case (Param m)
      with Cons.prems have "no_brace m" by simp
      from replace_from_placeholder [OF assms(1) this, of new "render ps"] ih Param
      show ?thesis by (auto simp: render_def)
    qed
  qed
  then show ?thesis by (simp add: replace_def)
qed

lemma fill_replaced:
  "fill payload ns (map (\<lambda>p. if p = Param n then Lit payload else p) ps)
     = fill payload (n # ns) ps"
proof -
  have "fill_piece payload ns (if p = Param n then Lit payload else p)
      = fill_piece payload (n # ns) p" for p
    by (cases p) auto
  then show ?thesis by (simp add: fill_def comp_def)
qed

lemma fill_nothing: "fill payload [] ps = render ps"
proof -
  have "fill_piece payload [] = render_piece"
  proof
    fix p show "fill_piece payload [] p = render_piece p" by (cases p) auto
  qed
  then show ?thesis by (simp add: fill_def render_def)
qed

lemma substitute_render:
  assumes "no_brace payload"
  shows "map (\<lambda>p. subscript p ''name'') path_params = map (\<lambda>n. Inr (JStr n)) names
     \<Longrightarrow> \<forall>n \<in> set names. no_brace n \<Longrightarrow> \<forall>p \<in> set ps. plain_piece p
     \<Longrightarrow> substitute w path_params payload (render ps) = Inr (fill payload names ps)"
proof (induction names arbitrary: path_params ps)
  case Nil
  then show ?case by (simp add: fill_nothing)
next
  case (Cons n ns)
  from Cons.prems(1) obtain q qs where q: "path_params = q # qs"
    "subscript q ''name'' = Inr (JStr n)"
    "map (\<lambda>p. subscript p ''name'') qs = map (\<lambda>n. Inr (JStr n)) ns"
    by (cases path_params) auto
  let ?ps = "map (\<lambda>p. if p = Param n then Lit payload else p) ps"
  have pl: "\<forall>p \<in> set ?ps. plain_piece p"
    using Cons.prems(3) assms by auto
  have "replace (placeholder w (JStr n)) payload (render ps) = render ?ps"
    using replace_render [of n ps payload] Cons.prems by simp
  with q have "substitute w path_params payload (render ps) = substitute w qs payload (render ?ps)"
    by simp
  also have "\<dots> = Inr (fill payload ns ?ps)"
    using Cons.IH [OF q(3) _ pl] Cons.prems(2) by simp
  finally show ?case by (simp add: fill_replaced)
qed

lemma payloads_no_brace: "payload \<in> set FUZZ_PAYLOADS \<Longrightarrow> no_brace payload"
  by (auto simp: FUZZ_PAYLOADS_def no_brace_def)

section \<open>Joining ordinary paths\<close>



















section \<open>The request of one iteration\<close>




lemma demo_targets_resolve:
  "targets_resolve demo_world (JStr ''https://api.example.com'') demo_spec"
  by code_simp

section \<open>The requests of a run\<close>

text \<open>
  A loop whose body adds to a trace a prefix of what it is expected to add, and all of it
  when it ends normally, does the same for the whole list.
\<close>

lemma for_each_trace:
  assumes "\<And>x s. \<exists>ys. tr (snd (body x s)) = tr s @ ys \<and> prefix ys (g x)
                      \<and> (fst (body x s) = None \<longrightarrow> ys = g x)"
  shows "\<exists>ys. tr (snd (for_each body xs s)) = tr s @ ys \<and> prefix ys (concat (map g xs))
            \<and> (fst (for_each body xs s) = None \<longrightarrow> ys = concat (map g xs))"
proof (induction xs arbitrary: s)
  case Nil
  show ?case by simp
next
  case (Cons x xs)
  obtain r s' where b: "body x s = (r, s')" by (cases "body x s")
  from assms [of x s] b obtain ys where
    ys: "tr s' = tr s @ ys" "prefix ys (g x)" "r = None \<longrightarrow> ys = g x"
    by auto
  show ?case
  proof (cases r)
    case None
    from Cons.IH [of s'] obtain zs where
      "tr (snd (for_each body xs s')) = tr s' @ zs \<and> prefix zs (concat (map g xs))
        \<and> (fst (for_each body xs s') = None \<longrightarrow> zs = concat (map g xs))" ..
    then have zs: "tr (snd (for_each body xs s')) = tr s' @ zs" "prefix zs (concat (map g xs))"
        "fst (for_each body xs s') = None \<longrightarrow> zs = concat (map g xs)"
      by simp_all
    have "for_each body (x # xs) s = for_each body xs s'" using b None by simp
    moreover have "ys = g x" using ys None by simp
    ultimately show ?thesis
      using ys zs by (intro exI [of _ "ys @ zs"]) simp
  next
    case (Some e)
    with b ys show ?thesis
      by (intro exI [of _ ys]) (auto intro: prefix_order.trans)
  qed
qed

text \<open>The comprehension selects the path parameters; it is not empty exactly for an
  operation with a parameter of location \<^verbatim>\<open>path\<close>.\<close>

lemma dict_get_in:
  "dict_get p ''in'' JNull = Inr loc \<Longrightarrow> (loc = JStr ''path'') = is_path_parameter p"
  by (cases p) (auto split: option.splits)

lemma select_path_params_filter:
  "select_path_params ps = Inr r \<Longrightarrow> r = filter is_path_parameter ps"
proof (induction ps arbitrary: r)
  case Nil
  then show ?case by simp
next
  case (Cons p ps)
  from Cons.prems obtain loc where loc: "dict_get p ''in'' JNull = Inr loc"
    by (cases "dict_get p ''in'' JNull") simp_all
  with Cons.prems obtain rest where rest: "select_path_params ps = Inr rest"
    by (cases "select_path_params ps") simp_all
  from Cons.prems loc rest have "r = (if loc = JStr ''path'' then p # rest else rest)"
    by simp
  with Cons.IH [OF rest] dict_get_in [OF loc] show ?case by simp
qed

lemma select_path_params_strings:
  "select_path_params (map (\<lambda>x. JStr (f x)) xs) = Inr r \<Longrightarrow> r = []"
  by (cases xs) simp_all

lemma path_params_of_nonempty:
  assumes "path_params_of operation = Inr pps"
  shows "pps \<noteq> [] \<longleftrightarrow> has_path_parameter operation"
proof -
  from assms obtain kvs where op: "operation = JObj kvs"
    by (cases operation) (simp_all add: path_params_of_def)
  show ?thesis
  proof (cases "map_of kvs ''parameters''")
    case None
    with op assms show ?thesis
      by (simp add: path_params_of_def has_path_parameter_def)
  next
    case (Some v)
    from assms op Some obtain xs where it: "iterate v = Inr xs" "select_path_params xs = Inr pps"
      by (cases "iterate v") (simp_all add: path_params_of_def)
    show ?thesis
    proof (cases v)
      case (JArr ps)
      with it have "pps = filter is_path_parameter ps"
        by (simp add: select_path_params_filter)
      with op Some JArr show ?thesis
        by (simp add: has_path_parameter_def list_ex_iff filter_empty_conv)
    next
      case (JStr s)
      with it have "pps = []"
        using select_path_params_strings [of "\<lambda>c. [c]" s pps] by simp
      with op Some JStr show ?thesis by (simp add: has_path_parameter_def)
    next
      case (JObj attrs)
      with it have "pps = []"
        using select_path_params_strings [of fst attrs pps] by simp
      with op Some JObj show ?thesis by (simp add: has_path_parameter_def)
    next
      case JNull
      with it show ?thesis by simp
    next
      case (JBool x)
      with it show ?thesis by simp
    next
      case (JInt x)
      with it show ?thesis by simp
    next
      case (JFloat x)
      with it show ?thesis by simp
    qed
  qed
qed

text \<open>What each loop adds to the history, by the loop variables of the requests.\<close>

lemma try_request_keys:
  "map sent_key (history (snd (try_request w p m pl req st)))
     = map sent_key (history st) @ [(p, m, pl)]"
  by (simp add: try_request_history sent_key_def)

lemma fuzz_payload_trace:
  "\<exists>ys. map sent_key (history (snd (fuzz_payload w b px p m pps pl st)))
           = map sent_key (history st) @ ys
        \<and> prefix ys [(p, m, pl)]
        \<and> (fst (fuzz_payload w b px p m pps pl st) = None \<longrightarrow> ys = [(p, m, pl)])"
proof (cases "substitute w pps pl p")
  case (Inl e)
  then show ?thesis
    by (intro exI [of _ "[]"]) (simp add: fuzz_payload_def)
next
  case (Inr fuzzed)
  show ?thesis
  proof (cases "urljoin w b (lstrip ''/'' fuzzed)")
    case (Inl e)
    with Inr show ?thesis
      by (intro exI [of _ "[]"]) (simp add: fuzz_payload_def)
  next
    case (Inr full_url)
    with \<open>substitute w pps pl p = Inr fuzzed\<close> show ?thesis
      by (intro exI [of _ "[(p, m, pl)]"]) (simp add: fuzz_payload_def try_request_keys emit_def)
  qed
qed

lemma fuzz_operation_trace:
  "\<exists>ys. map sent_key (history (snd (fuzz_operation w b px p entry st)))
           = map sent_key (history st) @ ys
        \<and> prefix ys (operation_requests p entry)
        \<and> (fst (fuzz_operation w b px p entry st) = None \<longrightarrow> ys = operation_requests p entry)"
proof (cases "path_params_of (snd entry)")
  case (Inl e)
  then show ?thesis
    by (intro exI [of _ "[]"]) (simp add: fuzz_operation_def)
next
  case (Inr pps)
  show ?thesis
  proof (cases "pps = []")
    case True
    with path_params_of_nonempty [OF Inr] have "operation_requests p entry = []"
      by (simp add: operation_requests_def)
    with Inr True show ?thesis
      by (intro exI [of _ "[]"]) (simp add: fuzz_operation_def)
  next
    case False
    with path_params_of_nonempty [OF Inr]
    have g: "operation_requests p entry
        = concat (map (\<lambda>pl. [(p, fst entry, pl)]) FUZZ_PAYLOADS)"
      by (simp add: operation_requests_def FUZZ_PAYLOADS_def)
    have f: "fuzz_operation w b px p entry st
        = for_each (fuzz_payload w b px p (fst entry) pps) FUZZ_PAYLOADS st"
      using Inr False by (simp add: fuzz_operation_def)
    show ?thesis
      unfolding f g
      by (rule for_each_trace [where tr = "\<lambda>s. map sent_key (history s)"])
         (rule fuzz_payload_trace)
  qed
qed

lemma fuzz_path_trace:
  "\<exists>ys. map sent_key (history (snd (fuzz_path w b px entry st)))
           = map sent_key (history st) @ ys
        \<and> prefix ys (path_requests entry)
        \<and> (fst (fuzz_path w b px entry st) = None \<longrightarrow> ys = path_requests entry)"
proof (cases "items (snd entry)")
  case (Inl e)
  then show ?thesis
    by (intro exI [of _ "[]"]) (simp add: fuzz_path_def)
next
  case (Inr ops)
  then have o: "operations_of (snd entry) = ops"
    by (cases "snd entry") (simp_all add: operations_of_def)
  have f: "fuzz_path w b px entry st = for_each (fuzz_operation w b px (fst entry)) ops st"
    using Inr by (simp add: fuzz_path_def)
  show ?thesis
    unfolding f path_requests_def o
    by (rule for_each_trace [where tr = "\<lambda>s. map sent_key (history s)"])
       (rule fuzz_operation_trace)
qed

lemma concat_map_concat:
  "concat (map F (concat (map G xs))) = concat (map (\<lambda>x. concat (map F (G x))) xs)"
  by (induction xs) simp_all

lemma concat_map_filter:
  "concat (map F (map h (filter P xs))) = concat (map (\<lambda>x. if P x then F (h x) else []) xs)"
  by (induction xs) simp_all

lemma expected_requests_by_path:
  "expected_requests spec = concat (map path_requests (paths_of spec))"
proof -
  have "concat (map (\<lambda>pair. map (\<lambda>payload. (fst pair, snd pair, payload))
                           [''1'', ''0'', ''6,5'', ''24'', ''-5'', ''*&^$'', ''text''])
           (map (\<lambda>op. (fst entry, fst op))
              (filter (\<lambda>op. has_path_parameter (snd op)) (operations_of (snd entry)))))
      = path_requests entry" for entry
    unfolding path_requests_def concat_map_filter
    by (rule arg_cong [where f = concat]) (simp add: operation_requests_def)
  then show ?thesis
    by (simp add: expected_requests_def fuzzable_pairs_def concat_map_concat)
qed

lemma length_expected_requests:
  "length (expected_requests spec) = 7 * length (fuzzable_pairs spec)"
proof -
  have "length (concat (map (\<lambda>pair. map (\<lambda>payload. (fst pair, snd pair, payload))
                           [''1'', ''0'', ''6,5'', ''24'', ''-5'', ''*&^$'', ''text'']) xs))
      = 7 * length xs" for xs :: "(string \<times> string) list"
    by (induction xs) simp_all
  then show ?thesis unfolding expected_requests_def .
qed

lemma fuzz_path_parameters_trace:
  "\<exists>ys. map sent_key (history (snd (fuzz_path_parameters w spec b px st)))
           = map sent_key (history st) @ ys
        \<and> prefix ys (expected_requests spec)
        \<and> (fst (fuzz_path_parameters w spec b px st) = None \<longrightarrow> ys = expected_requests spec)"
proof -
  define st1 where "st1 = (emit (Print ''Starting fuzzing process...\<newline>'') st)\<lparr>RequestsCount := 1\<rparr>"
  have h1: "history st1 = history st" by (simp add: st1_def emit_def)
  have eq: "fuzz_path_parameters w spec b px st =
     (case dict_get spec ''paths'' (JObj []) of
        Inl e \<Rightarrow> (Some e, st1)
      | Inr paths \<Rightarrow>
          (case items paths of
             Inl e \<Rightarrow> (Some e, st1)
           | Inr entries \<Rightarrow>
               (case for_each (fuzz_path w b px) entries st1 of
                  (None, st2) \<Rightarrow> (None, emit (Completed (RequestsCount st2 - 1)) st2)
                | (Some e, st2) \<Rightarrow> (Some e, st2))))"
    unfolding fuzz_path_parameters_def st1_def Let_def ..
  show ?thesis
  proof (cases "dict_get spec ''paths'' (JObj [])")
    case (Inl e)
    then show ?thesis
      by (intro exI [of _ "[]"]) (simp add: eq h1)
  next
    case (Inr paths)
    show ?thesis
    proof (cases "items paths")
      case (Inl e)
      with Inr show ?thesis
        by (intro exI [of _ "[]"]) (simp add: eq h1)
    next
      case (Inr entries)
      have p: "paths_of spec = entries"
        using \<open>dict_get spec ''paths'' (JObj []) = Inr paths\<close> Inr
        by (cases spec; cases paths) (auto simp: paths_of_def split: option.splits)
      obtain r st2 where f: "for_each (fuzz_path w b px) entries st1 = (r, st2)"
        by (cases "for_each (fuzz_path w b px) entries st1")
      from for_each_trace [where tr = "\<lambda>s. map sent_key (history s)" and body = "fuzz_path w b px"
          and g = path_requests and xs = entries and s = st1, OF fuzz_path_trace]
      obtain ys where "map sent_key (history (snd (for_each (fuzz_path w b px) entries st1)))
            = map sent_key (history st1) @ ys
          \<and> prefix ys (concat (map path_requests entries))
          \<and> (fst (for_each (fuzz_path w b px) entries st1) = None
               \<longrightarrow> ys = concat (map path_requests entries))" ..
      with f have ys: "map sent_key (history st2) = map sent_key (history st) @ ys"
        "prefix ys (expected_requests spec)" "r = None \<longrightarrow> ys = expected_requests spec"
        by (simp_all add: h1 expected_requests_by_path p)
      have res: "fst (fuzz_path_parameters w spec b px st) = r"
        "history (snd (fuzz_path_parameters w spec b px st)) = history st2"
        using \<open>dict_get spec ''paths'' (JObj []) = Inr paths\<close> Inr f
        by (cases r; simp add: eq emit_def)+
      show ?thesis
        by (rule exI [of _ ys]) (simp add: res ys)
    qed
  qed
qed

section \<open>Runs that complete\<close>

lemma for_each_completes:
  assumes "\<And>x s. x \<in> set xs \<Longrightarrow> fst (body x s) = None"
  shows "fst (for_each body xs s) = None"
  using assms
proof (induction xs arbitrary: s)
  case Nil
  show ?case by simp
next
  case (Cons x xs)
  obtain r s' where b: "body x s = (r, s')" by (cases "body x s")
  with Cons.prems [of x s] have "r = None" by simp
  with b have "for_each body (x # xs) s = for_each body xs s'" by simp
  with Cons.IH [of s'] Cons.prems show ?case by simp
qed

lemma try_request_completes:
  "answered (http w (RequestsCount st) req) \<Longrightarrow> fst (try_request w p m pl req st) = None"
proof (cases "http w (RequestsCount st) req")
  case (Response code)
  then show ?thesis by (simp add: try_request_def Let_def)
next
  case (Raised e)
  assume "answered (http w (RequestsCount st) req)"
  with Raised show ?thesis by (cases e) (simp_all add: try_request_def Let_def)
qed

lemma select_path_params_objects:
  "list_all is_object ps \<Longrightarrow> \<exists>r. select_path_params ps = Inr r"
proof (induction ps)
  case Nil
  show ?case by simp
next
  case (Cons p ps)
  then obtain r where r: "select_path_params ps = Inr r" by auto
  from Cons.prems obtain kvs where "p = JObj kvs" by (cases p) simp_all
  with r show ?case by (simp split: option.split)
qed

lemma path_params_of_well_formed:
  assumes "well_formed_operation operation"
  shows "\<exists>pps. path_params_of operation = Inr pps"
proof -
  from assms obtain kvs where op: "operation = JObj kvs"
    by (cases operation) (simp_all add: well_formed_operation_def)
  show ?thesis
  proof (cases "map_of kvs ''parameters''")
    case None
    with op show ?thesis by (simp add: path_params_of_def)
  next
    case (Some v)
    with assms op obtain ps where v: "v = JArr ps" "list_all is_object ps"
      by (cases v) (simp_all add: well_formed_operation_def)
    with select_path_params_objects [of ps] op Some show ?thesis
      by (auto simp: path_params_of_def)
  qed
qed

lemma fuzz_payload_completes:
  assumes "network_answers w" and "isOK (target w b p operation pl)"
    and "path_params_of operation = Inr pps"
  shows "fst (fuzz_payload w b px p m pps pl st) = None"
proof -
  from assms(2,3) obtain fuzzed where s: "substitute w pps pl p = Inr fuzzed"
    by (cases "substitute w pps pl p") (simp_all add: target_def)
  with assms(2,3) obtain u where u: "urljoin w b (lstrip ''/'' fuzzed) = Inr u"
    by (cases "urljoin w b (lstrip ''/'' fuzzed)") (simp_all add: target_def)
  from assms(1) have "answered (http w n r)" for n r
    by (simp add: network_answers_def)
  with s u show ?thesis
    by (simp add: fuzz_payload_def try_request_completes)
qed

lemma fuzz_operation_completes:
  assumes "network_answers w" and "well_formed_operation (snd entry)"
    and "has_path_parameter (snd entry) \<longrightarrow>
           list_all (\<lambda>payload. isOK (target w b p (snd entry) payload)) FUZZ_PAYLOADS"
  shows "fst (fuzz_operation w b px p entry st) = None"
proof -
  from path_params_of_well_formed [OF assms(2)] obtain pps
    where pps: "path_params_of (snd entry) = Inr pps" ..
  show ?thesis
  proof (cases "pps = []")
    case True
    with pps show ?thesis by (simp add: fuzz_operation_def)
  next
    case False
    with path_params_of_nonempty [OF pps] assms(3)
    have t: "\<forall>pl \<in> set FUZZ_PAYLOADS. isOK (target w b p (snd entry) pl)"
      by (simp add: list_all_iff)
    have "fst (fuzz_payload w b px p (fst entry) pps pl s) = None"
      if "pl \<in> set FUZZ_PAYLOADS" for pl s
      using fuzz_payload_completes [OF assms(1) _ pps, of b p pl] t that by blast
    then have "fst (for_each (fuzz_payload w b px p (fst entry) pps) FUZZ_PAYLOADS st) = None"
      by (rule for_each_completes)
    with pps False show ?thesis by (simp add: fuzz_operation_def)
  qed
qed

lemma fuzz_path_completes:
  assumes "network_answers w" and "well_formed_path_item (snd entry)"
    and "list_all (\<lambda>op. has_path_parameter (snd op) \<longrightarrow>
           list_all (\<lambda>payload. isOK (target w b (fst entry) (snd op) payload)) FUZZ_PAYLOADS)
          (operations_of (snd entry))"
  shows "fst (fuzz_path w b px entry st) = None"
proof -
  from assms(2) obtain ops where d: "snd entry = JObj ops"
    "list_all (\<lambda>op. well_formed_operation (snd op)) ops"
    by (cases "snd entry") (simp_all add: well_formed_path_item_def)
  have "fst (for_each (fuzz_operation w b px (fst entry)) ops st) = None"
    by (rule for_each_completes)
       (use d assms(1,3) in \<open>simp add: fuzz_operation_completes list_all_iff operations_of_def\<close>)
  with d show ?thesis by (simp add: fuzz_path_def)
qed

lemma fuzz_path_parameters_completes:
  assumes "network_answers w" and "well_formed_spec spec" and "targets_resolve w b spec"
  shows "fst (fuzz_path_parameters w spec b px st) = None"
proof -
  define st1 where "st1 = (emit (Print ''Starting fuzzing process...\<newline>'') st)\<lparr>RequestsCount := 1\<rparr>"
  have eq: "fuzz_path_parameters w spec b px st =
     (case dict_get spec ''paths'' (JObj []) of
        Inl e \<Rightarrow> (Some e, st1)
      | Inr paths \<Rightarrow>
          (case items paths of
             Inl e \<Rightarrow> (Some e, st1)
           | Inr entries \<Rightarrow>
               (case for_each (fuzz_path w b px) entries st1 of
                  (None, st2) \<Rightarrow> (None, emit (Completed (RequestsCount st2 - 1)) st2)
                | (Some e, st2) \<Rightarrow> (Some e, st2))))"
    unfolding fuzz_path_parameters_def st1_def Let_def ..
  from assms(2) obtain kvs where spec: "spec = JObj kvs"
    by (cases spec) (simp_all add: well_formed_spec_def)
  obtain entries where e: "dict_get spec ''paths'' (JObj []) = Inr (JObj entries)"
    "paths_of spec = entries" "list_all (\<lambda>entry. well_formed_path_item (snd entry)) entries"
  proof (cases "map_of kvs ''paths''")
    case None
    with spec that [of "[]"] show ?thesis by (simp add: paths_of_def)
  next
    case (Some v)
    with assms(2) spec obtain es where "v = JObj es"
      "list_all (\<lambda>entry. well_formed_path_item (snd entry)) es"
      by (cases v) (simp_all add: well_formed_spec_def)
    with Some spec that [of es] show ?thesis by (simp add: paths_of_def)
  qed
  have "fst (for_each (fuzz_path w b px) entries st1) = None"
    by (rule for_each_completes)
       (use e assms(1,3) in \<open>simp add: fuzz_path_completes list_all_iff targets_resolve_def\<close>)
  then obtain st2 where "for_each (fuzz_path w b px) entries st1 = (None, st2)"
    by (cases "for_each (fuzz_path w b px) entries st1") simp
  with e show ?thesis by (simp add: eq)
qed

section \<open>Findings\<close>

text \<open>
  Claim C1. A response whose status code is not 200 adds no finding and is not an error:
  the \<^verbatim>\<open>try\<close> statement ends normally, \<^verbatim>\<open>PositiveResponses\<close> is unchanged and only
  the status line is printed. Over the whole fuzz loop, the findings that a run adds are
  exactly the path templates of the requests of that run that were answered with status
  200.
\<close>

theorem only_status_200_is_recorded:
  "(\<forall>code. http w (RequestsCount s) req = Response code \<and> code \<noteq> 200 \<longrightarrow>
      fst (try_request w p m pl req s) = None
      \<and> PositiveResponses (snd (try_request w p m pl req s)) = PositiveResponses s
      \<and> stdout (snd (try_request w p m pl req s)) = stdout s @ [Status_line code])
   \<and> (\<exists>new. history (snd (fuzz_path_parameters w spec base_url proxy st)) = history st @ new
        \<and> set (PositiveResponses (snd (fuzz_path_parameters w spec base_url proxy st)))
            = set (PositiveResponses st)
              \<union> ex_path ` {x \<in> set new. ex_outcome x = Response 200})"
proof -
  have step: "fst (try_request w p m pl req s) = None
      \<and> PositiveResponses (snd (try_request w p m pl req s)) = PositiveResponses s
      \<and> stdout (snd (try_request w p m pl req s)) = stdout s @ [Status_line code]"
    if "http w (RequestsCount s) req = Response code" and "code \<noteq> 200" for code
    using that by (simp add: try_request_def emit_def Let_def)
  from fuzz_path_parameters_progress [of st w spec base_url proxy]
  obtain new where n: "history (snd (fuzz_path_parameters w spec base_url proxy st)) = history st @ new"
    "PositiveResponses (snd (fuzz_path_parameters w spec base_url proxy st))
       = foldl add_path (PositiveResponses st) (flagged new)"
    unfolding progress_def by blast
  have "set (flagged new) = ex_path ` {x \<in> set new. ex_outcome x = Response 200}"
    by (auto simp: flagged_def)
  with n have "set (PositiveResponses (snd (fuzz_path_parameters w spec base_url proxy st)))
            = set (PositiveResponses st)
              \<union> ex_path ` {x \<in> set new. ex_outcome x = Response 200}"
    by (simp add: set_foldl_add_path)
  with n(1) step show ?thesis by blast
qed

text \<open>The first request of the demo run is answered with 404: nothing is recorded.\<close>

theorem only_status_200_is_recorded_witness:
  "http demo_world (RequestsCount (init_state\<lparr>RequestsCount := 1\<rparr>))
       \<lparr>req_method = ''get'', req_url = JStr ''https://api.example.com/items/1'',
        req_proxy = JNull\<rparr> = Response 404
   \<and> (404 :: int) \<noteq> 200
   \<and> fst (try_request demo_world ''/items/{id}'' ''get'' ''1''
        \<lparr>req_method = ''get'', req_url = JStr ''https://api.example.com/items/1'',
         req_proxy = JNull\<rparr> (init_state\<lparr>RequestsCount := 1\<rparr>)) = None
   \<and> PositiveResponses (snd (try_request demo_world ''/items/{id}'' ''get'' ''1''
        \<lparr>req_method = ''get'', req_url = JStr ''https://api.example.com/items/1'',
         req_proxy = JNull\<rparr> (init_state\<lparr>RequestsCount := 1\<rparr>))) = []
   \<and> stdout (snd (try_request demo_world ''/items/{id}'' ''get'' ''1''
        \<lparr>req_method = ''get'', req_url = JStr ''https://api.example.com/items/1'',
         req_proxy = JNull\<rparr> (init_state\<lparr>RequestsCount := 1\<rparr>))) = [Status_line 404]"
proof -
  let ?req = "\<lparr>req_method = ''get'', req_url = JStr ''https://api.example.com/items/1'',
               req_proxy = JNull\<rparr>"
  let ?s = "init_state\<lparr>RequestsCount := 1\<rparr>"
  have h: "http demo_world (RequestsCount ?s) ?req = Response 404"
    by (simp add: demo_world_def demo_http_def)
  from only_status_200_is_recorded
         [of demo_world ?s ?req "''/items/{id}''" "''get''" "''1''" JNull JNull JNull init_state]
  have "\<forall>code. http demo_world (RequestsCount ?s) ?req = Response code \<and> code \<noteq> 200 \<longrightarrow>
      fst (try_request demo_world ''/items/{id}'' ''get'' ''1'' ?req ?s) = None
      \<and> PositiveResponses (snd (try_request demo_world ''/items/{id}'' ''get'' ''1'' ?req ?s))
          = PositiveResponses ?s
      \<and> stdout (snd (try_request demo_world ''/items/{id}'' ''get'' ''1'' ?req ?s))
          = stdout ?s @ [Status_line code]"
    by (rule conjunct1)
  with h have "fst (try_request demo_world ''/items/{id}'' ''get'' ''1'' ?req ?s) = None
      \<and> PositiveResponses (snd (try_request demo_world ''/items/{id}'' ''get'' ''1'' ?req ?s))
          = PositiveResponses ?s
      \<and> stdout (snd (try_request demo_world ''/items/{id}'' ''get'' ''1'' ?req ?s))
          = stdout ?s @ [Status_line 404]"
    by simp
  with h show ?thesis by (simp add: init_state_def)
qed

text \<open>
  Claim C4. The finding list never holds a path twice: a run that starts from a list
  without duplicates (the program starts from the empty list) ends with one, whether
  the loop completes or an exception cuts it short at some request, which covers every
  point a run can be stopped at. The list is the initial one followed by the newly flagged
  path templates, each at the place of its first status-200 response.
\<close>

theorem findings_without_duplicates:
  assumes "distinct (PositiveResponses st)"
  shows "\<exists>new. history (snd (fuzz_path_parameters w spec base_url proxy st)) = history st @ new
     \<and> distinct (PositiveResponses (snd (fuzz_path_parameters w spec base_url proxy st)))
     \<and> PositiveResponses (snd (fuzz_path_parameters w spec base_url proxy st))
         = first_occurrences (PositiveResponses st @ flagged new)"
  using assms fuzz_path_parameters_progress [of st w spec base_url proxy]
  unfolding progress_def
  by (auto simp: distinct_first_occurrences foldl_add_path_first_occurrences)

theorem findings_without_duplicates_witness:
  "distinct (PositiveResponses init_state)
   \<and> (\<exists>new. history (snd (fuzz_path_parameters demo_world demo_spec
                 (JStr ''https://api.example.com'') JNull init_state)) = history init_state @ new
     \<and> distinct (PositiveResponses (snd (fuzz_path_parameters demo_world demo_spec
                 (JStr ''https://api.example.com'') JNull init_state)))
     \<and> PositiveResponses (snd (fuzz_path_parameters demo_world demo_spec
                 (JStr ''https://api.example.com'') JNull init_state))
         = first_occurrences (PositiveResponses init_state @ flagged new))"
proof -
  have d: "distinct (PositiveResponses init_state)" by (simp add: init_state_def)
  from findings_without_duplicates [OF d] d show ?thesis by blast
qed

section \<open>The report\<close>

text \<open>
  Claim C8, as stated, puts the flagged paths immediately after the two-line header. The
  second \<^verbatim>\<open>f.write\<close> ends the separator line with two newlines, so the third line of
  the file is empty and the first path is on the fourth: for the single finding
  \<^verbatim>\<open>/items/{id}\<close> the file does not consist of the header line, the separator line and
  the path.
\<close>

theorem paths_not_directly_after_header:
  "files (save_results demo_world [''/items/{id}''] init_state) ''results_09-05-30_03-11-26.txt''
     = Some (report [''/items/{id}''])
   \<and> split_on (CHR 0x0A) (report [''/items/{id}''])
       \<noteq> [''Endpoints that returned 200 OK with fuzzed payloads:'', replicate 50 (CHR ''=''),
          ''/items/{id}'']
   \<and> split_on (CHR 0x0A) (report [''/items/{id}''])
       = [''Endpoints that returned 200 OK with fuzzed payloads:'', replicate 50 (CHR ''=''),
          [], ''/items/{id}'']"
proof -
  have "files (save_results demo_world [''/items/{id}''] init_state) ''results_09-05-30_03-11-26.txt''
     = Some (report [''/items/{id}''])"
    by (simp add: save_results_def emit_def strftime_def two_digits_def demo_world_def Let_def)
  moreover have "split_on (CHR 0x0A) (report [''/items/{id}''])
       = [''Endpoints that returned 200 OK with fuzzed payloads:'', replicate 50 (CHR ''=''),
          [], ''/items/{id}'']"
    by (rule report_lines [of "[''/items/{id}'']", simplified])
  ultimately show ?thesis by simp
qed

text \<open>
  Claim C8, amended. With no finding, \<^verbatim>\<open>save_results\<close> writes no file and prints
  \<^verbatim>\<open>No vulnerable endpoints found\<close> (after a newline). With findings it writes exactly
  one file, \<^verbatim>\<open>results_<HH-MM-SS_DD-MM-YY>.txt\<close>, and prints its name; when no path holds
  a newline, the lines of the file are the header line, the separator line of fifty
  \<^verbatim>\<open>=\<close>, an empty line, and the paths of the list, one per line and in order.
\<close>

theorem save_results_writes_report:
  "(pathList = [] \<longrightarrow>
      files (save_results w pathList st) = files st
      \<and> stdout (save_results w pathList st)
          = stdout st @ [Print (CHR 0x0A # ''No vulnerable endpoints found'')])
   \<and> (pathList \<noteq> [] \<longrightarrow>
      files (save_results w pathList st)
        = (files st)(''results_'' @ strftime (now w) @ ''.txt'' \<mapsto> report pathList)
      \<and> stdout (save_results w pathList st)
          = stdout st @ [Results_saved (''results_'' @ strftime (now w) @ ''.txt'')]
      \<and> ((\<forall>p \<in> set pathList. CHR 0x0A \<notin> set p) \<longrightarrow>
            split_on (CHR 0x0A) (report pathList)
              = [''Endpoints that returned 200 OK with fuzzed payloads:'',
                 replicate 50 (CHR ''=''), []] @ pathList))"
proof (intro conjI impI)
  assume "pathList = []"
  then show "files (save_results w pathList st) = files st"
    and "stdout (save_results w pathList st)
          = stdout st @ [Print (CHR 0x0A # ''No vulnerable endpoints found'')]"
    by (simp_all add: save_results_def emit_def)
next
  assume "pathList \<noteq> []"
  then show "files (save_results w pathList st)
        = (files st)(''results_'' @ strftime (now w) @ ''.txt'' \<mapsto> report pathList)"
    and "stdout (save_results w pathList st)
          = stdout st @ [Results_saved (''results_'' @ strftime (now w) @ ''.txt'')]"
    by (simp_all add: save_results_def emit_def Let_def)
next
  assume "pathList \<noteq> []" and "\<forall>p \<in> set pathList. CHR 0x0A \<notin> set p"
  then show "split_on (CHR 0x0A) (report pathList)
              = [''Endpoints that returned 200 OK with fuzzed payloads:'',
                 replicate 50 (CHR ''=''), []] @ pathList"
    by (rule report_lines)
qed

text \<open>Two findings at 09:05:30 on 3 November 2026, and no finding at all.\<close>

theorem save_results_writes_report_witness:
  "files (save_results demo_world [] init_state) = Map.empty
   \<and> stdout (save_results demo_world [] init_state)
       = [Print (CHR 0x0A # ''No vulnerable endpoints found'')]
   \<and> [''/items/{id}'', ''/users/{id}''] \<noteq> []
   \<and> files (save_results demo_world [''/items/{id}'', ''/users/{id}''] init_state)
       = [''results_09-05-30_03-11-26.txt'' \<mapsto> report [''/items/{id}'', ''/users/{id}'']]
   \<and> stdout (save_results demo_world [''/items/{id}'', ''/users/{id}''] init_state)
       = [Results_saved ''results_09-05-30_03-11-26.txt'']
   \<and> split_on (CHR 0x0A) (report [''/items/{id}'', ''/users/{id}''])
       = [''Endpoints that returned 200 OK with fuzzed payloads:'', replicate 50 (CHR ''=''),
          [], ''/items/{id}'', ''/users/{id}'']"
proof -
  have name: "strftime (now demo_world) = ''09-05-30_03-11-26''"
    by (simp add: strftime_def two_digits_def demo_world_def)
  have init: "files init_state = Map.empty" "stdout init_state = []"
    by (simp_all add: init_state_def)
  from save_results_writes_report [of "[]" demo_world init_state]
  have 1: "files (save_results demo_world [] init_state) = Map.empty
   \<and> stdout (save_results demo_world [] init_state)
       = [Print (CHR 0x0A # ''No vulnerable endpoints found'')]"
    by (simp add: init)
  from save_results_writes_report [of "[''/items/{id}'', ''/users/{id}'']" demo_world init_state]
  have 2: "files (save_results demo_world [''/items/{id}'', ''/users/{id}''] init_state)
       = [''results_09-05-30_03-11-26.txt'' \<mapsto> report [''/items/{id}'', ''/users/{id}'']]
   \<and> stdout (save_results demo_world [''/items/{id}'', ''/users/{id}''] init_state)
       = [Results_saved ''results_09-05-30_03-11-26.txt'']
   \<and> split_on (CHR 0x0A) (report [''/items/{id}'', ''/users/{id}''])
       = [''Endpoints that returned 200 OK with fuzzed payloads:'', replicate 50 (CHR ''=''),
          [], ''/items/{id}'', ''/users/{id}'']"
    by (simp add: init name)
  from 1 2 show ?thesis by simp
qed

section \<open>Configuration\<close>

text \<open>
  Claim C7, as stated, lets every key fall through to the built-in default on its own.
  \<^verbatim>\<open>load_config\<close> returns a configuration file that parses as it is, without the
  defaults underneath: with a file that holds \<^verbatim>\<open>base_url\<close> only and no flags,
  \<^verbatim>\<open>config['openapi_file']\<close> raises \<^verbatim>\<open>KeyError\<close> and the process ends there, before
  any request and without a report.
\<close>

theorem missing_config_key_is_fatal:
  "fst (configure partial_config_world demo_args init_state) = Inl KeyError
   \<and> main partial_config_world demo_args = (Some KeyError, init_state)"
  by (simp add: main_def configure_def load_config_def flag_or_def partial_config_world_def
      demo_args_def)

text \<open>
  Claim C7, amended. For \<^verbatim>\<open>base_url\<close> and \<^verbatim>\<open>openapi_file\<close> a flag that is given (and not
  empty) wins; without it, and always for \<^verbatim>\<open>zap_proxy\<close>, which has no flag, the value comes
  from one configuration source. That source is the built-in defaults as a whole
  (\<^verbatim>\<open>https://api.example.com\<close>, \<^verbatim>\<open>openapi.json\<close>, \<^verbatim>\<open>http://127.0.0.1:8080\<close>) only when the
  configuration file does not exist or reading it raises \<^verbatim>\<open>JSONDecodeError\<close>, which is
  not fatal: a warning is printed. A file that parses is the source as it is, with no
  defaults underneath: a key that is needed (no flag stands in for it) and missing from the
  object ends the process with \<^verbatim>\<open>KeyError\<close>, a document that is no object ends it with
  \<^verbatim>\<open>TypeError\<close>, and any other error of reading the file (such as bytes that are not
  UTF-8) ends it with that error; in these cases nothing is sent and nothing is saved.
\<close>

theorem configuration_precedence:
  "(\<not> path_exists w (arg_config a)
      \<or> read_json w (JStr (arg_config a)) = ReadFails JSONDecodeError \<longrightarrow>
      fst (configure w a st)
        = Inr \<lparr>BASE_URL = flag_value (arg_url a) (JStr ''https://api.example.com''),
               OPENAPI_FILE = flag_value (arg_file a) (JStr ''openapi.json''),
               ZAP_PROXY_HOST = JStr ''http://127.0.0.1:8080''\<rparr>
      \<and> stdout (snd (configure w a st))
          = stdout st @ (if path_exists w (arg_config a)
                          then [Invalid_config (arg_config a)] else []))
   \<and> (path_exists w (arg_config a)
        \<and> read_json w (JStr (arg_config a)) = Loaded (JObj kvs)
        \<and> (flag_given (arg_url a) \<or> map_of kvs ''base_url'' \<noteq> None)
        \<and> (flag_given (arg_file a) \<or> map_of kvs ''openapi_file'' \<noteq> None)
        \<and> map_of kvs ''zap_proxy'' \<noteq> None \<longrightarrow>
      fst (configure w a st)
        = Inr \<lparr>BASE_URL = flag_value (arg_url a) (config_value kvs ''base_url''),
               OPENAPI_FILE = flag_value (arg_file a) (config_value kvs ''openapi_file''),
               ZAP_PROXY_HOST = config_value kvs ''zap_proxy''\<rparr>)
   \<and> (path_exists w (arg_config a)
        \<and> read_json w (JStr (arg_config a)) = Loaded (JObj kvs)
        \<and> (\<not> flag_given (arg_url a) \<and> map_of kvs ''base_url'' = None
            \<or> \<not> flag_given (arg_file a) \<and> map_of kvs ''openapi_file'' = None
            \<or> map_of kvs ''zap_proxy'' = None) \<longrightarrow>
      fst (configure w a st) = Inl KeyError \<and> main w a = (Some KeyError, init_state))
   \<and> (path_exists w (arg_config a)
        \<and> read_json w (JStr (arg_config a)) = Loaded doc \<and> \<not> is_object doc \<longrightarrow>
      fst (configure w a st) = Inl TypeError \<and> main w a = (Some TypeError, init_state))
   \<and> (path_exists w (arg_config a)
        \<and> read_json w (JStr (arg_config a)) = ReadFails e \<and> e \<noteq> JSONDecodeError \<longrightarrow>
      fst (configure w a st) = Inl e \<and> main w a = (Some e, init_state))"
proof (intro conjI impI)
  assume h: "\<not> path_exists w (arg_config a)
      \<or> read_json w (JStr (arg_config a)) = ReadFails JSONDecodeError"
  then have l: "load_config w (arg_config a) st
      = (Inr DEFAULT_CONFIG,
         if path_exists w (arg_config a) then emit (Invalid_config (arg_config a)) st else st)"
    by (auto simp: load_config_def)
  show "fst (configure w a st)
        = Inr \<lparr>BASE_URL = flag_value (arg_url a) (JStr ''https://api.example.com''),
               OPENAPI_FILE = flag_value (arg_file a) (JStr ''openapi.json''),
               ZAP_PROXY_HOST = JStr ''http://127.0.0.1:8080''\<rparr>"
    by (simp add: configure_def l flag_or_def flag_value_def DEFAULT_CONFIG_def
          split: option.split)
  show "stdout (snd (configure w a st))
          = stdout st @ (if path_exists w (arg_config a)
                          then [Invalid_config (arg_config a)] else [])"
    by (simp add: configure_state l emit_def)
next
  assume "path_exists w (arg_config a)
        \<and> read_json w (JStr (arg_config a)) = Loaded (JObj kvs)
        \<and> (flag_given (arg_url a) \<or> map_of kvs ''base_url'' \<noteq> None)
        \<and> (flag_given (arg_file a) \<or> map_of kvs ''openapi_file'' \<noteq> None)
        \<and> map_of kvs ''zap_proxy'' \<noteq> None"
  then show "fst (configure w a st)
        = Inr \<lparr>BASE_URL = flag_value (arg_url a) (config_value kvs ''base_url''),
               OPENAPI_FILE = flag_value (arg_file a) (config_value kvs ''openapi_file''),
               ZAP_PROXY_HOST = config_value kvs ''zap_proxy''\<rparr>"
    by (auto simp: configure_def load_config_def flag_or_def flag_value_def flag_given_def
          config_value_def split: option.split)
next
  assume h: "path_exists w (arg_config a)
        \<and> read_json w (JStr (arg_config a)) = Loaded (JObj kvs)
        \<and> (\<not> flag_given (arg_url a) \<and> map_of kvs ''base_url'' = None
            \<or> \<not> flag_given (arg_file a) \<and> map_of kvs ''openapi_file'' = None
            \<or> map_of kvs ''zap_proxy'' = None)"
  then have l: "\<And>s. load_config w (arg_config a) s = (Inr (JObj kvs), s)"
    by (simp add: load_config_def)
  have c: "\<And>s. configure w a s = (Inl KeyError, s)"
    using h by (auto simp: configure_def l flag_or_def flag_given_def
          split: option.split sum.split)
  show "fst (configure w a st) = Inl KeyError" by (simp add: c)
  show "main w a = (Some KeyError, init_state)" by (simp add: main_def c)
next
  assume h: "path_exists w (arg_config a)
        \<and> read_json w (JStr (arg_config a)) = Loaded doc \<and> \<not> is_object doc"
  then have l: "\<And>s. load_config w (arg_config a) s = (Inr doc, s)"
    by (simp add: load_config_def)
  from h have s: "\<And>k. subscript doc k = Inl TypeError"
    by (cases doc) simp_all
  have c: "\<And>s. configure w a s = (Inl TypeError, s)"
    by (auto simp: configure_def l s flag_or_def split: option.split sum.split)
  show "fst (configure w a st) = Inl TypeError" by (simp add: c)
  show "main w a = (Some TypeError, init_state)" by (simp add: main_def c)
next
  assume h: "path_exists w (arg_config a)
        \<and> read_json w (JStr (arg_config a)) = ReadFails e \<and> e \<noteq> JSONDecodeError"
  then have l: "\<And>s. load_config w (arg_config a) s = (Inl e, s)"
    by (cases e) (simp_all add: load_config_def)
  have c: "\<And>s. configure w a s = (Inl e, s)"
    by (simp add: configure_def l)
  show "fst (configure w a st) = Inl e" by (simp add: c)
  show "main w a = (Some e, init_state)" by (simp add: main_def c)
qed

text \<open>
  No configuration file and no flags; a file that is not JSON; a complete file and
  \<^verbatim>\<open>--url\<close>; a file without \<^verbatim>\<open>base_url\<close> and \<^verbatim>\<open>--url\<close>; the same file without the flag;
  a file that holds an array; a file that is not UTF-8.
\<close>

theorem configuration_precedence_witness:
  "\<not> path_exists demo_world (arg_config demo_args)
   \<and> fst (configure demo_world demo_args init_state)
       = Inr \<lparr>BASE_URL = JStr ''https://api.example.com'',
              OPENAPI_FILE = JStr ''openapi.json'',
              ZAP_PROXY_HOST = JStr ''http://127.0.0.1:8080''\<rparr>
   \<and> read_json malformed_config_world (JStr (arg_config url_args)) = ReadFails JSONDecodeError
   \<and> fst (configure malformed_config_world url_args init_state)
       = Inr \<lparr>BASE_URL = JStr ''https://staging.example.com'',
              OPENAPI_FILE = JStr ''openapi.json'',
              ZAP_PROXY_HOST = JStr ''http://127.0.0.1:8080''\<rparr>
   \<and> stdout (snd (configure malformed_config_world url_args init_state))
       = [Invalid_config ''config.json'']
   \<and> fst (configure full_config_world url_args init_state)
       = Inr \<lparr>BASE_URL = JStr ''https://staging.example.com'',
              OPENAPI_FILE = JStr ''petstore.json'',
              ZAP_PROXY_HOST = JStr ''http://127.0.0.1:9090''\<rparr>
   \<and> fst (configure no_url_config_world url_args init_state)
       = Inr \<lparr>BASE_URL = JStr ''https://staging.example.com'',
              OPENAPI_FILE = JStr ''petstore.json'',
              ZAP_PROXY_HOST = JStr ''http://127.0.0.1:9090''\<rparr>
   \<and> main no_url_config_world demo_args = (Some KeyError, init_state)
   \<and> main array_config_world url_args = (Some TypeError, init_state)
   \<and> main undecodable_config_world url_args = (Some ValueError, init_state)"
proof -
  let ?full = "[(''base_url'', JStr ''http://localhost:3000''),
                (''openapi_file'', JStr ''petstore.json''),
                (''zap_proxy'', JStr ''http://127.0.0.1:9090'')]"
  let ?nourl = "[(''openapi_file'', JStr ''petstore.json''),
                 (''zap_proxy'', JStr ''http://127.0.0.1:9090'')]"
  have 1: "\<not> path_exists demo_world (arg_config demo_args)"
    by (simp add: demo_world_def)
  then have h1: "\<not> path_exists demo_world (arg_config demo_args)
      \<or> read_json demo_world (JStr (arg_config demo_args)) = ReadFails JSONDecodeError" ..
  have 2: "read_json malformed_config_world (JStr (arg_config url_args))
      = ReadFails JSONDecodeError"
    by (simp add: malformed_config_world_def url_args_def)
  then have h2: "\<not> path_exists malformed_config_world (arg_config url_args)
      \<or> read_json malformed_config_world (JStr (arg_config url_args))
         = ReadFails JSONDecodeError" ..
  have e2: "path_exists malformed_config_world (arg_config url_args)"
    by (simp add: malformed_config_world_def url_args_def)
  have h3: "path_exists full_config_world (arg_config url_args)
        \<and> read_json full_config_world (JStr (arg_config url_args)) = Loaded (JObj ?full)
        \<and> (flag_given (arg_url url_args) \<or> map_of ?full ''base_url'' \<noteq> None)
        \<and> (flag_given (arg_file url_args) \<or> map_of ?full ''openapi_file'' \<noteq> None)
        \<and> map_of ?full ''zap_proxy'' \<noteq> None"
    by (simp add: full_config_world_def url_args_def flag_given_def)
  have h4: "path_exists no_url_config_world (arg_config url_args)
        \<and> read_json no_url_config_world (JStr (arg_config url_args)) = Loaded (JObj ?nourl)
        \<and> (flag_given (arg_url url_args) \<or> map_of ?nourl ''base_url'' \<noteq> None)
        \<and> (flag_given (arg_file url_args) \<or> map_of ?nourl ''openapi_file'' \<noteq> None)
        \<and> map_of ?nourl ''zap_proxy'' \<noteq> None"
    by (simp add: no_url_config_world_def url_args_def flag_given_def)
  have h5: "path_exists no_url_config_world (arg_config demo_args)
        \<and> read_json no_url_config_world (JStr (arg_config demo_args)) = Loaded (JObj ?nourl)
        \<and> (\<not> flag_given (arg_url demo_args) \<and> map_of ?nourl ''base_url'' = None
            \<or> \<not> flag_given (arg_file demo_args) \<and> map_of ?nourl ''openapi_file'' = None
            \<or> map_of ?nourl ''zap_proxy'' = None)"
    by (simp add: no_url_config_world_def demo_args_def flag_given_def)
  have h6: "path_exists array_config_world (arg_config url_args)
        \<and> read_json array_config_world (JStr (arg_config url_args)) = Loaded (JArr [])
        \<and> \<not> is_object (JArr [])"
    by (simp add: array_config_world_def url_args_def)
  have h7: "path_exists undecodable_config_world (arg_config url_args)
        \<and> read_json undecodable_config_world (JStr (arg_config url_args)) = ReadFails ValueError
        \<and> ValueError \<noteq> JSONDecodeError"
    by (simp add: undecodable_config_world_def url_args_def)
  note A = configuration_precedence [THEN conjunct1]
  note B = configuration_precedence [THEN conjunct2, THEN conjunct1]
  note C = configuration_precedence [THEN conjunct2, THEN conjunct2, THEN conjunct1]
  note D = configuration_precedence [THEN conjunct2, THEN conjunct2, THEN conjunct2,
             THEN conjunct1]
  note E = configuration_precedence [THEN conjunct2, THEN conjunct2, THEN conjunct2,
             THEN conjunct2]
  from A [THEN mp, OF h1, of init_state]
  have a: "fst (configure demo_world demo_args init_state)
       = Inr \<lparr>BASE_URL = JStr ''https://api.example.com'',
              OPENAPI_FILE = JStr ''openapi.json'',
              ZAP_PROXY_HOST = JStr ''http://127.0.0.1:8080''\<rparr>"
    by (simp add: flag_value_def demo_args_def)
  from A [THEN mp, OF h2, of init_state]
  have b: "fst (configure malformed_config_world url_args init_state)
       = Inr \<lparr>BASE_URL = JStr ''https://staging.example.com'',
              OPENAPI_FILE = JStr ''openapi.json'',
              ZAP_PROXY_HOST = JStr ''http://127.0.0.1:8080''\<rparr>"
    and b': "stdout (snd (configure malformed_config_world url_args init_state))
       = [Invalid_config ''config.json'']"
    using e2 by (simp_all add: flag_value_def url_args_def init_state_def)
  from B [THEN mp, OF h3, of init_state]
  have c: "fst (configure full_config_world url_args init_state)
       = Inr \<lparr>BASE_URL = JStr ''https://staging.example.com'',
              OPENAPI_FILE = JStr ''petstore.json'',
              ZAP_PROXY_HOST = JStr ''http://127.0.0.1:9090''\<rparr>"
    by (simp add: flag_value_def config_value_def url_args_def)
  from B [THEN mp, OF h4, of init_state]
  have d: "fst (configure no_url_config_world url_args init_state)
       = Inr \<lparr>BASE_URL = JStr ''https://staging.example.com'',
              OPENAPI_FILE = JStr ''petstore.json'',
              ZAP_PROXY_HOST = JStr ''http://127.0.0.1:9090''\<rparr>"
    by (simp add: flag_value_def config_value_def url_args_def)
  from C [THEN mp, OF h5]
  have e: "main no_url_config_world demo_args = (Some KeyError, init_state)" ..
  from D [THEN mp, OF h6]
  have f: "main array_config_world url_args = (Some TypeError, init_state)" ..
  from E [THEN mp, OF h7]
  have g: "main undecodable_config_world url_args = (Some ValueError, init_state)" ..
  show ?thesis by (intro conjI 1 a 2 b b' c d e f g)
qed

section \<open>Exit paths of the driver\<close>

text \<open>
  Claim C5. Once the configuration is resolved, the main block saves the results on
  every way out of its \<^verbatim>\<open>try\<close> statement. Whatever the body did, the final state shows
  the effect of \<^verbatim>\<open>save_results\<close> on the findings the body ended with: no file and the
  message when there is none, the report file and its name otherwise. A
  \<^verbatim>\<open>KeyboardInterrupt\<close> never leaves the process. A specification file that is missing
  or is not JSON ends the run normally, with no request and no finding; so does a body
  that completes, and so does one that the user interrupts.
\<close>

theorem results_saved_on_every_exit:
  assumes "fst (configure w a init_state) = Inr c"
  shows "fst (main w a) \<noteq> Some KeyboardInterrupt
   \<and> PositiveResponses (snd (main w a))
       = PositiveResponses (snd (load_and_fuzz w c (banner c (snd (configure w a init_state)))))
   \<and> history (snd (main w a))
       = history (snd (load_and_fuzz w c (banner c (snd (configure w a init_state)))))
   \<and> (PositiveResponses (snd (main w a)) = [] \<longrightarrow>
         files (snd (main w a)) = Map.empty
         \<and> last (stdout (snd (main w a))) = Print (CHR 0x0A # ''No vulnerable endpoints found''))
   \<and> (PositiveResponses (snd (main w a)) \<noteq> [] \<longrightarrow>
         files (snd (main w a))
           = [''results_'' @ strftime (now w) @ ''.txt'' \<mapsto> report (PositiveResponses (snd (main w a)))]
         \<and> last (stdout (snd (main w a)))
             = Results_saved (''results_'' @ strftime (now w) @ ''.txt''))
   \<and> (read_json w (OPENAPI_FILE c) = ReadFails FileNotFoundError
        \<or> read_json w (OPENAPI_FILE c) = ReadFails JSONDecodeError \<longrightarrow>
         fst (main w a) = None \<and> history (snd (main w a)) = []
         \<and> PositiveResponses (snd (main w a)) = [])
   \<and> (fst (load_and_fuzz w c (banner c (snd (configure w a init_state)))) = None
        \<or> fst (load_and_fuzz w c (banner c (snd (configure w a init_state))))
            = Some KeyboardInterrupt \<longrightarrow>
         fst (main w a) = None)"
proof -
  from main_result [OF assms] obtain st0 st2 where
    s0: "silent init_state st0" and
    st0: "st0 = banner c (snd (configure w a init_state))" and
    s2: "silent (snd (load_and_fuzz w c st0)) st2" and
    m: "main w a = (if fst (load_and_fuzz w c st0) = Some KeyboardInterrupt then None
                    else fst (load_and_fuzz w c st0),
                    save_results w (PositiveResponses st2) st2)" and
    f2: "files st2 = Map.empty"
    by blast
  have final: "snd (main w a) = save_results w (PositiveResponses st2) st2"
    using m by simp
  have 1: "fst (main w a) \<noteq> Some KeyboardInterrupt"
    using m by simp
  have 2: "PositiveResponses (snd (main w a)) = PositiveResponses (snd (load_and_fuzz w c st0))"
    using final s2 by (simp add: save_results_findings silent_def)
  have 3: "history (snd (main w a)) = history (snd (load_and_fuzz w c st0))"
    using final s2 by (simp add: save_results_history silent_def)
  have p2: "PositiveResponses (snd (main w a)) = PositiveResponses st2"
    using final by (simp add: save_results_findings)
  have 4: "files (snd (main w a)) = Map.empty
         \<and> last (stdout (snd (main w a))) = Print (CHR 0x0A # ''No vulnerable endpoints found'')"
    if "PositiveResponses (snd (main w a)) = []"
    using that p2 final f2 save_results_nothing [of w st2] by simp
  have 5: "files (snd (main w a))
           = [''results_'' @ strftime (now w) @ ''.txt'' \<mapsto> report (PositiveResponses (snd (main w a)))]
         \<and> last (stdout (snd (main w a)))
             = Results_saved (''results_'' @ strftime (now w) @ ''.txt'')"
    if "PositiveResponses (snd (main w a)) \<noteq> []"
    using that p2 final f2 save_results_something [of "PositiveResponses st2" w st2] by simp
  have 6: "fst (main w a) = None \<and> history (snd (main w a)) = []
         \<and> PositiveResponses (snd (main w a)) = []"
    if "read_json w (OPENAPI_FILE c) = ReadFails FileNotFoundError
        \<or> read_json w (OPENAPI_FILE c) = ReadFails JSONDecodeError"
  proof -
    from load_and_fuzz_no_file [OF that, of st0]
    have "fst (load_and_fuzz w c st0) = None" and "silent st0 (snd (load_and_fuzz w c st0))"
      by simp_all
    with s0 m 2 3 show ?thesis
      by (simp add: silent_def init_state_def)
  qed
  have 7: "fst (main w a) = None"
    if "fst (load_and_fuzz w c st0) = None \<or> fst (load_and_fuzz w c st0) = Some KeyboardInterrupt"
    using that m by auto
  from 1 2 3 4 5 6 7 show ?thesis
    unfolding st0 by blast
qed

text \<open>
  A run whose second request the user interrupts, after a first one answered with status
  200, and a run without a specification file.
\<close>

theorem results_saved_on_every_exit_witness:
  "fst (configure interrupted_world demo_args init_state) = Inr demo_config
   \<and> fst (load_and_fuzz interrupted_world demo_config (banner demo_config init_state))
       = Some KeyboardInterrupt
   \<and> fst (main interrupted_world demo_args) = None
   \<and> PositiveResponses (snd (main interrupted_world demo_args)) = [''/items/{id}'']
   \<and> files (snd (main interrupted_world demo_args))
       = [''results_09-05-30_03-11-26.txt'' \<mapsto> report [''/items/{id}'']]
   \<and> last (stdout (snd (main interrupted_world demo_args)))
       = Results_saved ''results_09-05-30_03-11-26.txt''
   \<and> fst (configure no_spec_world demo_args init_state) = Inr demo_config
   \<and> read_json no_spec_world (OPENAPI_FILE demo_config) = ReadFails FileNotFoundError
   \<and> fst (main no_spec_world demo_args) = None
   \<and> history (snd (main no_spec_world demo_args)) = []
   \<and> files (snd (main no_spec_world demo_args)) = Map.empty
   \<and> last (stdout (snd (main no_spec_world demo_args)))
       = Print (CHR 0x0A # ''No vulnerable endpoints found'')"
proof -
  have ci: "configure interrupted_world demo_args init_state = (Inr demo_config, init_state)"
    by (simp add: configure_def load_config_def flag_or_def interrupted_world_def demo_world_def
        demo_args_def demo_config_def DEFAULT_CONFIG_def)
  have cn: "configure no_spec_world demo_args init_state = (Inr demo_config, init_state)"
    by (simp add: configure_def load_config_def flag_or_def no_spec_world_def demo_world_def
        demo_args_def demo_config_def DEFAULT_CONFIG_def)
  have name: "strftime (now interrupted_world) = ''09-05-30_03-11-26''"
    by (simp add: strftime_def two_digits_def interrupted_world_def demo_world_def)
  have rn: "read_json no_spec_world (OPENAPI_FILE demo_config) = ReadFails FileNotFoundError"
    by (simp add: no_spec_world_def)
  note I = results_saved_on_every_exit [of interrupted_world demo_args demo_config]
  have ri: "fst (load_and_fuzz interrupted_world demo_config
                   (banner demo_config (snd (configure interrupted_world demo_args init_state))))
              = Some KeyboardInterrupt"
    and pi: "PositiveResponses (snd (load_and_fuzz interrupted_world demo_config
                   (banner demo_config (snd (configure interrupted_world demo_args init_state)))))
              = [''/items/{id}'']"
    using interrupted_run by (simp_all add: ci)
  from I ri have i1: "fst (main interrupted_world demo_args) = None"
    by (simp add: ci)
  from I pi have i2: "PositiveResponses (snd (main interrupted_world demo_args)) = [''/items/{id}'']"
    by (simp add: ci)
  from I have "PositiveResponses (snd (main interrupted_world demo_args)) \<noteq> [] \<longrightarrow>
         files (snd (main interrupted_world demo_args))
           = [''results_'' @ strftime (now interrupted_world) @ ''.txt''
               \<mapsto> report (PositiveResponses (snd (main interrupted_world demo_args)))]
         \<and> last (stdout (snd (main interrupted_world demo_args)))
             = Results_saved (''results_'' @ strftime (now interrupted_world) @ ''.txt'')"
    by (simp add: ci)
  with i2 have i3: "files (snd (main interrupted_world demo_args))
       = [''results_09-05-30_03-11-26.txt'' \<mapsto> report [''/items/{id}'']]
   \<and> last (stdout (snd (main interrupted_world demo_args)))
       = Results_saved ''results_09-05-30_03-11-26.txt''"
    by (simp add: name)
  note i = i1 i2 i3
  have cn': "fst (configure no_spec_world demo_args init_state) = Inr demo_config"
    by (simp add: cn)
  note N = results_saved_on_every_exit [of no_spec_world demo_args demo_config, OF cn']
  from N rn have n1: "fst (main no_spec_world demo_args) = None
         \<and> history (snd (main no_spec_world demo_args)) = []
         \<and> PositiveResponses (snd (main no_spec_world demo_args)) = []"
    by blast
  from N have "PositiveResponses (snd (main no_spec_world demo_args)) = [] \<longrightarrow>
         files (snd (main no_spec_world demo_args)) = Map.empty
         \<and> last (stdout (snd (main no_spec_world demo_args)))
             = Print (CHR 0x0A # ''No vulnerable endpoints found'')"
    by blast
  with n1 have n2: "files (snd (main no_spec_world demo_args)) = Map.empty
         \<and> last (stdout (snd (main no_spec_world demo_args)))
             = Print (CHR 0x0A # ''No vulnerable endpoints found'')"
    by blast
  note n = n1 n2
  from ci cn rn interrupted_run i n show ?thesis by simp
qed

text \<open>
  Claim C10, as stated, lets every true document without a \<^verbatim>\<open>paths\<close> member pass
  without a crash. A document that is true and not an object has no \<^verbatim>\<open>get\<close>: for the
  array \<^verbatim>\<open>[1]\<close> the call \<^verbatim>\<open>spec.get('paths', {})\<close> raises \<^verbatim>\<open>AttributeError\<close>, which
  the process dies of (after saving the empty results, with no request sent).
\<close>

theorem array_document_crashes:
  "fst (configure array_spec_world demo_args init_state) = Inr demo_config
   \<and> read_json array_spec_world (OPENAPI_FILE demo_config) = Loaded (JArr [JInt 1])
   \<and> truthy (JArr [JInt 1])
   \<and> fst (main array_spec_world demo_args) = Some AttributeError
   \<and> history (snd (main array_spec_world demo_args)) = []"
proof -
  have c: "configure array_spec_world demo_args init_state = (Inr demo_config, init_state)"
    by (simp add: configure_def load_config_def flag_or_def array_spec_world_def demo_world_def
        demo_args_def demo_config_def DEFAULT_CONFIG_def)
  have r: "read_json array_spec_world (OPENAPI_FILE demo_config) = Loaded (JArr [JInt 1])"
    by (simp add: array_spec_world_def)
  have l: "load_and_fuzz array_spec_world demo_config st
      = (Some AttributeError,
         (emit (Print ''Starting fuzzing process...\<newline>'')
            (emit (Loading (OPENAPI_FILE demo_config)) st))\<lparr>RequestsCount := 1\<rparr>)" for st
    using r by (simp add: load_and_fuzz_def load_openapi_spec_def fuzz_path_parameters_def)
  have "fst (main array_spec_world demo_args) = Some AttributeError
   \<and> history (snd (main array_spec_world demo_args)) = []"
    using c l
    by (simp add: main_def guarded_run_def save_results_history banner_def emit_def init_state_def)
  with c r show ?thesis by simp
qed

text \<open>
  Claim C10, amended. A specification file that parses to a false document (\<^verbatim>\<open>{}\<close>,
  \<^verbatim>\<open>[]\<close>, \<^verbatim>\<open>null\<close>, \<^verbatim>\<open>0\<close>, \<^verbatim>\<open>false\<close>, the empty string) skips the fuzz loop as a
  failed load does, and a true object without a \<^verbatim>\<open>paths\<close> member runs the loop over
  nothing: in both cases the run ends normally, no request is sent, no finding is made, no
  file is written and the message for no findings is printed last.
\<close>

theorem falsy_or_pathless_document_sends_nothing:
  assumes "fst (configure w a init_state) = Inr c"
    and "read_json w (OPENAPI_FILE c) = Loaded doc"
  shows "\<not> truthy doc \<or> (\<exists>kvs. doc = JObj kvs \<and> map_of kvs ''paths'' = None) \<longrightarrow>
     fst (main w a) = None
     \<and> history (snd (main w a)) = []
     \<and> PositiveResponses (snd (main w a)) = []
     \<and> files (snd (main w a)) = Map.empty
     \<and> last (stdout (snd (main w a))) = Print (CHR 0x0A # ''No vulnerable endpoints found'')"
proof
  assume d: "\<not> truthy doc \<or> (\<exists>kvs. doc = JObj kvs \<and> map_of kvs ''paths'' = None)"
  from main_result [OF assms(1)] obtain st0 st2 where
    s0: "silent init_state st0" and
    s2: "silent (snd (load_and_fuzz w c st0)) st2" and
    m: "main w a = (if fst (load_and_fuzz w c st0) = Some KeyboardInterrupt then None
                    else fst (load_and_fuzz w c st0),
                    save_results w (PositiveResponses st2) st2)" and
    f2: "files st2 = Map.empty"
    by blast
  have l: "fst (load_and_fuzz w c st0) = None \<and> silent st0 (snd (load_and_fuzz w c st0))"
    using d assms(2) load_and_fuzz_falsy [of w c doc st0] load_and_fuzz_no_paths [of w c _ st0]
    by blast
  with s0 s2 have e: "history st2 = [] \<and> PositiveResponses st2 = []"
    by (simp add: silent_def init_state_def)
  with m l f2 save_results_nothing [of w st2]
  show "fst (main w a) = None
     \<and> history (snd (main w a)) = []
     \<and> PositiveResponses (snd (main w a)) = []
     \<and> files (snd (main w a)) = Map.empty
     \<and> last (stdout (snd (main w a))) = Print (CHR 0x0A # ''No vulnerable endpoints found'')"
    by (simp add: save_results_history save_results_findings)
qed

text \<open>The document \<^verbatim>\<open>0\<close>, and an object that holds \<^verbatim>\<open>openapi\<close> only.\<close>

theorem falsy_or_pathless_document_sends_nothing_witness:
  "fst (configure zero_spec_world demo_args init_state) = Inr demo_config
   \<and> read_json zero_spec_world (OPENAPI_FILE demo_config) = Loaded (JInt 0)
   \<and> \<not> truthy (JInt 0)
   \<and> fst (main zero_spec_world demo_args) = None
   \<and> history (snd (main zero_spec_world demo_args)) = []
   \<and> files (snd (main zero_spec_world demo_args)) = Map.empty
   \<and> fst (configure pathless_spec_world demo_args init_state) = Inr demo_config
   \<and> read_json pathless_spec_world (OPENAPI_FILE demo_config)
       = Loaded (JObj [(''openapi'', JStr ''3.0.0'')])
   \<and> truthy (JObj [(''openapi'', JStr ''3.0.0'')])
   \<and> map_of [(''openapi'', JStr ''3.0.0'')] ''paths'' = None
   \<and> fst (main pathless_spec_world demo_args) = None
   \<and> history (snd (main pathless_spec_world demo_args)) = []
   \<and> files (snd (main pathless_spec_world demo_args)) = Map.empty
   \<and> last (stdout (snd (main pathless_spec_world demo_args)))
       = Print (CHR 0x0A # ''No vulnerable endpoints found'')"
proof -
  have cz: "fst (configure zero_spec_world demo_args init_state) = Inr demo_config"
    by (simp add: configure_def load_config_def flag_or_def zero_spec_world_def demo_world_def
        demo_args_def demo_config_def DEFAULT_CONFIG_def)
  have cp: "fst (configure pathless_spec_world demo_args init_state) = Inr demo_config"
    by (simp add: configure_def load_config_def flag_or_def pathless_spec_world_def demo_world_def
        demo_args_def demo_config_def DEFAULT_CONFIG_def)
  have rz: "read_json zero_spec_world (OPENAPI_FILE demo_config) = Loaded (JInt 0)"
    by (simp add: zero_spec_world_def)
  have rp: "read_json pathless_spec_world (OPENAPI_FILE demo_config)
       = Loaded (JObj [(''openapi'', JStr ''3.0.0'')])"
    by (simp add: pathless_spec_world_def)
  from falsy_or_pathless_document_sends_nothing [OF cz rz]
  have z: "fst (main zero_spec_world demo_args) = None
   \<and> history (snd (main zero_spec_world demo_args)) = []
   \<and> files (snd (main zero_spec_world demo_args)) = Map.empty"
    by simp
  from falsy_or_pathless_document_sends_nothing [OF cp rp]
  have p: "fst (main pathless_spec_world demo_args) = None
   \<and> history (snd (main pathless_spec_world demo_args)) = []
   \<and> files (snd (main pathless_spec_world demo_args)) = Map.empty
   \<and> last (stdout (snd (main pathless_spec_world demo_args)))
       = Print (CHR 0x0A # ''No vulnerable endpoints found'')"
    by simp
  from cz cp rz rp z p show ?thesis by simp
qed

section \<open>Substitution\<close>

text \<open>
  Claim C3. For a path template made of literal text and placeholders, and path
  parameters whose names are strings without braces, the inner loop puts the current
  payload in the place of every placeholder that names a path parameter, the same payload
  for all of them, and leaves the rest of the template as it is. The request of this
  iteration is sent to what \<^verbatim>\<open>urljoin\<close> makes of that path.
\<close>

theorem every_placeholder_gets_the_payload:
  assumes "payload \<in> set FUZZ_PAYLOADS"
    and "\<forall>p \<in> set pieces. plain_piece p"
    and "map (\<lambda>p. subscript p ''name'') path_params = map (\<lambda>n. Inr (JStr n)) names"
    and "\<forall>n \<in> set names. no_brace n"
  shows "substitute w path_params payload (render pieces) = Inr (fill payload names pieces)
     \<and> (\<forall>u. urljoin w base_url (lstrip ''/'' (fill payload names pieces)) = Inr u \<longrightarrow>
          (\<exists>x. history (snd (fuzz_payload w base_url proxy (render pieces) method path_params
                               payload st)) = history st @ [x]
             \<and> ex_payload x = payload
             \<and> ex_request x = \<lparr>req_method = method, req_url = u, req_proxy = proxy\<rparr>))"
proof -
  have s: "substitute w path_params payload (render pieces) = Inr (fill payload names pieces)"
    using substitute_render [OF payloads_no_brace [OF assms(1)] assms(3) assms(4) assms(2)] .
  have "\<exists>x. history (snd (fuzz_payload w base_url proxy (render pieces) method path_params
                               payload st)) = history st @ [x]
             \<and> ex_payload x = payload
             \<and> ex_request x = \<lparr>req_method = method, req_url = u, req_proxy = proxy\<rparr>"
    if "urljoin w base_url (lstrip ''/'' (fill payload names pieces)) = Inr u" for u
    using that s by (simp add: fuzz_payload_def try_request_history emit_def)
  with s show ?thesis by blast
qed

text \<open>The template \<^verbatim>\<open>/users/{id}/orders/{orderId}\<close> with the payload \<^verbatim>\<open>-5\<close>.\<close>

theorem every_placeholder_gets_the_payload_witness:
  "''-5'' \<in> set FUZZ_PAYLOADS
   \<and> render [Lit ''/users/'', Param ''id'', Lit ''/orders/'', Param ''orderId'']
       = ''/users/{id}/orders/{orderId}''
   \<and> substitute demo_world
        [JObj [(''name'', JStr ''id''), (''in'', JStr ''path'')],
         JObj [(''name'', JStr ''orderId''), (''in'', JStr ''path'')]]
        ''-5'' ''/users/{id}/orders/{orderId}''
       = Inr ''/users/-5/orders/-5''"
proof -
  let ?pieces = "[Lit ''/users/'', Param ''id'', Lit ''/orders/'', Param ''orderId'']"
  let ?params = "[JObj [(''name'', JStr ''id''), (''in'', JStr ''path'')],
         JObj [(''name'', JStr ''orderId''), (''in'', JStr ''path'')]]"
  have 1: "''-5'' \<in> set FUZZ_PAYLOADS" by (simp add: FUZZ_PAYLOADS_def)
  have 2: "\<forall>p \<in> set ?pieces. plain_piece p" by (simp add: no_brace_def)
  have 3: "map (\<lambda>p. subscript p ''name'') ?params = map (\<lambda>n. Inr (JStr n)) [''id'', ''orderId'']"
    by simp
  have 4: "\<forall>n \<in> set [''id'', ''orderId'']. no_brace n" by (simp add: no_brace_def)
  have r: "render ?pieces = ''/users/{id}/orders/{orderId}''" by (simp add: render_def)
  have f: "fill ''-5'' [''id'', ''orderId''] ?pieces = ''/users/-5/orders/-5''"
    by (simp add: fill_def)
  from every_placeholder_gets_the_payload [OF 1 2 3 4, of demo_world]
  have "substitute demo_world ?params ''-5'' (render ?pieces)
      = Inr (fill ''-5'' [''id'', ''orderId''] ?pieces)"
    by (rule conjunct1)
  with 1 r f show ?thesis by simp
qed

section \<open>The request target\<close>







section \<open>The number and order of the requests\<close>

text \<open>
  Claim C2, as stated, holds for every parsed specification. The loop takes every member
  of a path item for an operation: with the parameters declared at the path level, as
  OpenAPI allows, the member \<^verbatim>\<open>parameters\<close> is a list, \<^verbatim>\<open>operation.get\<close> raises
  \<^verbatim>\<open>AttributeError\<close>, and no request is issued although the operation \<^verbatim>\<open>get\<close> has a path
  parameter. An interrupt at the second request ends the loop after two of the seven
  requests, and a base URL that \<^verbatim>\<open>urljoin\<close> rejects ends it before the first.
\<close>

theorem fewer_requests_than_seven_per_pair:
  "fuzzable_pairs path_level_spec = [(''/items/{id}'', ''get'')]
   \<and> fst (fuzz_path_parameters demo_world path_level_spec (JStr ''https://api.example.com'')
            JNull init_state) = Some AttributeError
   \<and> history (snd (fuzz_path_parameters demo_world path_level_spec
                     (JStr ''https://api.example.com'') JNull init_state)) = []
   \<and> fuzzable_pairs demo_spec = [(''/items/{id}'', ''get'')]
   \<and> fst (fuzz_path_parameters interrupted_world demo_spec (JStr ''https://api.example.com'')
            JNull init_state) = Some KeyboardInterrupt
   \<and> length (history (snd (fuzz_path_parameters interrupted_world demo_spec
                     (JStr ''https://api.example.com'') JNull init_state))) = 2
   \<and> fst (fuzz_path_parameters demo_world demo_spec (JStr ''http://['') JNull init_state)
       = Some ValueError
   \<and> history (snd (fuzz_path_parameters demo_world demo_spec (JStr ''http://['') JNull
                     init_state)) = []"
  by code_simp

text \<open>
  Claim C2, amended. For every specification of the data model's shape (an object whose
  \<^verbatim>\<open>paths\<close>, if any, maps templates to objects of operations that are objects with a list
  of parameter objects, if any), when every target resolves and the network answers every
  request or fails with a \<^verbatim>\<open>RequestException\<close>, the fuzz loop ends normally and issues
  exactly (number of (path, method) pairs having at least one parameter with location
  \<^verbatim>\<open>path\<close>) times 7 requests, applying the payloads \<^verbatim>\<open>1\<close>, \<^verbatim>\<open>0\<close>, \<^verbatim>\<open>6,5\<close>, \<^verbatim>\<open>24\<close>,
  \<^verbatim>\<open>-5\<close>, \<^verbatim>\<open>*&^$\<close>, \<^verbatim>\<open>text\<close> in this order to every such pair. Every run, also one that
  is cut short, issues a prefix of this list of requests; and for a specification with no
  such pair no request is issued and the findings stay as they were.
\<close>

theorem requests_follow_the_specification:
  "\<exists>new. history (snd (fuzz_path_parameters w spec base_url proxy st)) = history st @ new
      \<and> prefix (map sent_key new) (expected_requests spec)
      \<and> (fst (fuzz_path_parameters w spec base_url proxy st) = None \<longrightarrow>
            map sent_key new = expected_requests spec
            \<and> length new = 7 * length (fuzzable_pairs spec))
      \<and> (fuzzable_pairs spec = [] \<longrightarrow>
            new = []
            \<and> PositiveResponses (snd (fuzz_path_parameters w spec base_url proxy st))
                = PositiveResponses st)
      \<and> (well_formed_spec spec \<and> targets_resolve w base_url spec \<and> network_answers w \<longrightarrow>
            fst (fuzz_path_parameters w spec base_url proxy st) = None)"
proof -
  let ?R = "fuzz_path_parameters w spec base_url proxy st"
  from fuzz_path_parameters_progress [of st w spec base_url proxy]
  obtain new where n: "history (snd ?R) = history st @ new"
    "PositiveResponses (snd ?R) = foldl add_path (PositiveResponses st) (flagged new)"
    unfolding progress_def by blast
  from fuzz_path_parameters_trace [of w spec base_url proxy st]
  obtain ys where "map sent_key (history (snd ?R)) = map sent_key (history st) @ ys
      \<and> prefix ys (expected_requests spec)
      \<and> (fst ?R = None \<longrightarrow> ys = expected_requests spec)" ..
  with n(1) have k: "prefix (map sent_key new) (expected_requests spec)"
    "fst ?R = None \<longrightarrow> map sent_key new = expected_requests spec"
    by simp_all
  have l: "length new = 7 * length (fuzzable_pairs spec)"
    if "map sent_key new = expected_requests spec"
  proof -
    have "length new = length (map sent_key new)" by simp
    with that show ?thesis by (simp only: length_expected_requests)
  qed
  have z: "new = [] \<and> PositiveResponses (snd ?R) = PositiveResponses st"
    if "fuzzable_pairs spec = []"
  proof -
    from that have "expected_requests spec = []" by (simp add: expected_requests_def)
    with k(1) have "new = []" by simp
    with n(2) show ?thesis by (simp add: flagged_def)
  qed
  have c: "fst ?R = None"
    if "well_formed_spec spec \<and> targets_resolve w base_url spec \<and> network_answers w"
    using that by (simp add: fuzz_path_parameters_completes)
  have A3: "fst ?R = None \<longrightarrow>
            map sent_key new = expected_requests spec
            \<and> length new = 7 * length (fuzzable_pairs spec)"
    using k(2) l by simp
  have A4: "fuzzable_pairs spec = [] \<longrightarrow>
            new = [] \<and> PositiveResponses (snd ?R) = PositiveResponses st"
    using z by simp
  have A5: "well_formed_spec spec \<and> targets_resolve w base_url spec \<and> network_answers w \<longrightarrow>
            fst ?R = None"
    using c by simp
  show ?thesis
    by (rule exI [of _ new]) (intro conjI n(1) k(1) A3 A4 A5)
qed

text \<open>
  The demo specification: one pair with a path parameter (\<^verbatim>\<open>get\<close>), one without
  (\<^verbatim>\<open>post\<close>), seven requests.
\<close>

theorem requests_follow_the_specification_witness:
  "well_formed_spec demo_spec
   \<and> targets_resolve demo_world (JStr ''https://api.example.com'') demo_spec
   \<and> network_answers demo_world
   \<and> fuzzable_pairs demo_spec = [(''/items/{id}'', ''get'')]
   \<and> fst (fuzz_path_parameters demo_world demo_spec (JStr ''https://api.example.com'') JNull
            init_state) = None
   \<and> length (history (snd (fuzz_path_parameters demo_world demo_spec
                    (JStr ''https://api.example.com'') JNull init_state))) = 7
   \<and> map sent_key (history (snd (fuzz_path_parameters demo_world demo_spec
                    (JStr ''https://api.example.com'') JNull init_state)))
       = [(''/items/{id}'', ''get'', ''1''), (''/items/{id}'', ''get'', ''0''),
          (''/items/{id}'', ''get'', ''6,5''), (''/items/{id}'', ''get'', ''24''),
          (''/items/{id}'', ''get'', ''-5''), (''/items/{id}'', ''get'', ''*&^$''),
          (''/items/{id}'', ''get'', ''text'')]"
proof -
  let ?R = "fuzz_path_parameters demo_world demo_spec (JStr ''https://api.example.com'') JNull
              init_state"
  have wf: "well_formed_spec demo_spec" by code_simp
  have tr: "targets_resolve demo_world (JStr ''https://api.example.com'') demo_spec"
    by (rule demo_targets_resolve)
  have na: "network_answers demo_world"
    by (simp add: network_answers_def demo_world_def demo_http_def)
  have fp: "fuzzable_pairs demo_spec = [(''/items/{id}'', ''get'')]" by code_simp
  have ex: "expected_requests demo_spec
             = [(''/items/{id}'', ''get'', ''1''), (''/items/{id}'', ''get'', ''0''),
                (''/items/{id}'', ''get'', ''6,5''), (''/items/{id}'', ''get'', ''24''),
                (''/items/{id}'', ''get'', ''-5''), (''/items/{id}'', ''get'', ''*&^$''),
                (''/items/{id}'', ''get'', ''text'')]"
    by (simp add: expected_requests_def fp)
  from requests_follow_the_specification
         [of demo_world demo_spec "JStr ''https://api.example.com''" JNull init_state]
  obtain new where N: "history (snd ?R) = history init_state @ new
      \<and> prefix (map sent_key new) (expected_requests demo_spec)
      \<and> (fst ?R = None \<longrightarrow>
            map sent_key new = expected_requests demo_spec
            \<and> length new = 7 * length (fuzzable_pairs demo_spec))
      \<and> (fuzzable_pairs demo_spec = [] \<longrightarrow>
            new = [] \<and> PositiveResponses (snd ?R) = PositiveResponses init_state)
      \<and> (well_formed_spec demo_spec
            \<and> targets_resolve demo_world (JStr ''https://api.example.com'') demo_spec
            \<and> network_answers demo_world \<longrightarrow> fst ?R = None)" ..
  note n = N [THEN conjunct1]
  note c = N [THEN conjunct2, THEN conjunct2, THEN conjunct1]
  note t = N [THEN conjunct2, THEN conjunct2, THEN conjunct2, THEN conjunct2]
  from wf tr na have "well_formed_spec demo_spec
            \<and> targets_resolve demo_world (JStr ''https://api.example.com'') demo_spec
            \<and> network_answers demo_world" by (intro conjI)
  with t have r: "fst ?R = None" by (rule mp)
  with c have "map sent_key new = expected_requests demo_spec
            \<and> length new = 7 * length (fuzzable_pairs demo_spec)" by (rule mp)
  then have m: "map sent_key new = expected_requests demo_spec"
    and l: "length new = 7 * length (fuzzable_pairs demo_spec)"
    by (rule conjunct1, rule conjunct2)
  have hi: "history init_state = []" by (simp add: init_state_def)
  from n have "history (snd ?R) = [] @ new" unfolding hi .
  then have h: "new = history (snd ?R)" by (simp only: append_Nil)
  from l have l7: "length (history (snd ?R)) = 7"
    unfolding fp h by (simp only: list.size One_nat_def mult_1_right add_0 mult.right_neutral)
  from m have m7: "map sent_key (history (snd ?R))
       = [(''/items/{id}'', ''get'', ''1''), (''/items/{id}'', ''get'', ''0''),
          (''/items/{id}'', ''get'', ''6,5''), (''/items/{id}'', ''get'', ''24''),
          (''/items/{id}'', ''get'', ''-5''), (''/items/{id}'', ''get'', ''*&^$''),
          (''/items/{id}'', ''get'', ''text'')]"
    unfolding ex h .
  show ?thesis by (intro conjI wf tr na fp r l7 m7)
qed

end
